theory Spec2Isabelle
  imports Main
begin

section \<open>Python string operations used by the collector\<close>

text \<open>
  Strings are character lists. The operations below are the \<^verbatim>\<open>str\<close> methods the two
  source modules call: \<^verbatim>\<open>startswith\<close>, \<^verbatim>\<open>endswith\<close>, the substring test \<^verbatim>\<open>sub in s\<close>,
  \<^verbatim>\<open>split\<close> on a one-character separator, \<^verbatim>\<open>lower\<close> and \<^verbatim>\<open>strip\<close>. A character stands
  for a code point below 256; whitespace and case conversion are those of \<^verbatim>\<open>str\<close> on
  these code points.
\<close>

definition startswith :: "string \<Rightarrow> string \<Rightarrow> bool" where
  "startswith s p = (take (length p) s = p)"

definition endswith :: "string \<Rightarrow> string \<Rightarrow> bool" where
  "endswith s p = (length p \<le> length s \<and> drop (length s - length p) s = p)"

text \<open>\<^verbatim>\<open>sub in s\<close>: some suffix of \<open>s\<close> starts with \<open>sub\<close>.\<close>

fun substring_in :: "string \<Rightarrow> string \<Rightarrow> bool" where
  "substring_in sub [] = (sub = [])"
| "substring_in sub (c # cs) = (startswith (c # cs) sub \<or> substring_in sub cs)"

text \<open>\<^verbatim>\<open>s.split(sep)\<close> for a single character: empty pieces are kept, and the
  result always has at least one piece.\<close>

fun split_on :: "char \<Rightarrow> string \<Rightarrow> string list" where
  "split_on sep [] = [[]]"
| "split_on sep (c # cs) =
     (if c = sep then [] # split_on sep cs
      else (case split_on sep cs of
              [] \<Rightarrow> [[c]]
            | p # ps \<Rightarrow> (c # p) # ps))"

definition ascii_upper :: string where
  "ascii_upper = ''ABCDEFGHIJKLMNOPQRSTUVWXYZ''"

definition ascii_lower :: string where
  "ascii_lower = ''abcdefghijklmnopqrstuvwxyz''"

definition ascii_digits :: string where
  "ascii_digits = ''0123456789''"

text \<open>The code points below 256 that \<^verbatim>\<open>str.strip\<close> removes and \<^verbatim>\<open>\s\<close> matches.\<close>

definition whitespace :: string where
  "whitespace =
     [CHR 0x09, CHR 0x0A, CHR 0x0B, CHR 0x0C, CHR 0x0D, CHR 0x1C, CHR 0x1D, CHR 0x1E,
      CHR 0x1F, CHR '' '', CHR 0x85, CHR 0xA0]"

text \<open>The capital letters U+00C0 to U+00DE (without the multiplication sign U+00D7) and
  the small letters U+00E0 to U+00FE (without the division sign U+00F7) they lower to.\<close>

definition latin_upper :: string where
  "latin_upper =
     [CHR 0xC0, CHR 0xC1, CHR 0xC2, CHR 0xC3, CHR 0xC4, CHR 0xC5, CHR 0xC6, CHR 0xC7,
      CHR 0xC8, CHR 0xC9, CHR 0xCA, CHR 0xCB, CHR 0xCC, CHR 0xCD, CHR 0xCE, CHR 0xCF,
      CHR 0xD0, CHR 0xD1, CHR 0xD2, CHR 0xD3, CHR 0xD4, CHR 0xD5, CHR 0xD6, CHR 0xD8,
      CHR 0xD9, CHR 0xDA, CHR 0xDB, CHR 0xDC, CHR 0xDD, CHR 0xDE]"

definition latin_lower :: string where
  "latin_lower =
     [CHR 0xE0, CHR 0xE1, CHR 0xE2, CHR 0xE3, CHR 0xE4, CHR 0xE5, CHR 0xE6, CHR 0xE7,
      CHR 0xE8, CHR 0xE9, CHR 0xEA, CHR 0xEB, CHR 0xEC, CHR 0xED, CHR 0xEE, CHR 0xEF,
      CHR 0xF0, CHR 0xF1, CHR 0xF2, CHR 0xF3, CHR 0xF4, CHR 0xF5, CHR 0xF6, CHR 0xF8,
      CHR 0xF9, CHR 0xFA, CHR 0xFB, CHR 0xFC, CHR 0xFD, CHR 0xFE]"

definition lower_char :: "char \<Rightarrow> char" where
  "lower_char c =
     (case map_of (zip (ascii_upper @ latin_upper) (ascii_lower @ latin_lower)) c of
        Some d \<Rightarrow> d
      | None \<Rightarrow> c)"

definition lower :: "string \<Rightarrow> string" where
  "lower s = map lower_char s"

definition strip :: "string \<Rightarrow> string" where
  "strip s = rev (dropWhile (\<lambda>c. c \<in> set whitespace)
                   (rev (dropWhile (\<lambda>c. c \<in> set whitespace) s)))"

section \<open>Noise rules of the pattern manager\<close>

text \<open>
  The fourteen entries of \<^verbatim>\<open>noise_patterns\<close> are only ever used through
  \<^verbatim>\<open>pattern.search(value)\<close>, and they use nothing beyond literals, the classes
  \<^verbatim>\<open>[a-z]\<close>, \<^verbatim>\<open>[A-Z]\<close>, \<^verbatim>\<open>[a-zA-Z]\<close>, \<^verbatim>\<open>\d\<close>, \<^verbatim>\<open>\s\<close>, bounded repetition, an
  optional group, \<^verbatim>\<open>*\<close> and \<^verbatim>\<open>+\<close> over one class, and the anchors. They are embedded
  as syntax trees with a matcher that lists every way a tree can consume a prefix.
\<close>

datatype cls = Lower | Upper | Alpha | Digit | Space

fun in_cls :: "cls \<Rightarrow> char \<Rightarrow> bool" where
  "in_cls Lower c = (c \<in> set ascii_lower)"
| "in_cls Upper c = (c \<in> set ascii_upper)"
| "in_cls Alpha c = (c \<in> set ascii_lower \<or> c \<in> set ascii_upper)"
| "in_cls Digit c = (c \<in> set ascii_digits)"
| "in_cls Space c = (c \<in> set whitespace)"

datatype rx = Lit string | One cls | Star cls | Plus cls | Opt rx | Seq rx rx

text \<open>\<open>star_rems k s\<close>: the remainders of \<open>s\<close> after zero or more characters of class \<open>k\<close>.\<close>

fun star_rems :: "cls \<Rightarrow> string \<Rightarrow> string list" where
  "star_rems k [] = [[]]"
| "star_rems k (c # cs) = (c # cs) # (if in_cls k c then star_rems k cs else [])"

fun rems :: "rx \<Rightarrow> string \<Rightarrow> string list" where
  "rems (Lit l) s = (if startswith s l then [drop (length l) s] else [])"
| "rems (One k) s = (case s of [] \<Rightarrow> [] | c # cs \<Rightarrow> if in_cls k c then [cs] else [])"
| "rems (Star k) s = star_rems k s"
| "rems (Plus k) s = (case s of [] \<Rightarrow> [] | c # cs \<Rightarrow> if in_cls k c then star_rems k cs else [])"
| "rems (Opt r) s = rems r s @ [s]"
| "rems (Seq r1 r2) s = concat (map (rems r2) (rems r1 s))"

text \<open>
  One alternative of a noise pattern: whether it starts with \<^verbatim>\<open>^\<close>, its body, and whether
  it ends with \<^verbatim>\<open>$\<close>. Without MULTILINE, \<^verbatim>\<open>^\<close> matches at the start of the string only and
  \<^verbatim>\<open>$\<close> at the end or just before a final newline.
\<close>

type_synonym alt = "bool \<times> rx \<times> bool"

definition at_end :: "string \<Rightarrow> bool" where
  "at_end r = (r = [] \<or> r = [CHR 0x0A])"

definition match_here :: "alt \<Rightarrow> string \<Rightarrow> bool" where
  "match_here a s = (case a of (_, r, e) \<Rightarrow> (\<exists>t \<in> set (rems r s). \<not> e \<or> at_end t))"

fun match_anywhere :: "alt \<Rightarrow> string \<Rightarrow> bool" where
  "match_anywhere a [] = match_here a []"
| "match_anywhere a (c # cs) = (match_here a (c # cs) \<or> match_anywhere a cs)"

definition search_alt :: "alt \<Rightarrow> string \<Rightarrow> bool" where
  "search_alt a s = (if fst a then match_here a s else match_anywhere a s)"

text \<open>\<^verbatim>\<open>pattern.search(value)\<close> for a pattern given as its list of alternatives.\<close>

definition search :: "alt list \<Rightarrow> string \<Rightarrow> bool" where
  "search p s = (\<exists>a \<in> set p. search_alt a s)"

definition lower2 :: rx where
  "lower2 = Seq (One Lower) (One Lower)"

definition locale_rx :: rx where
  "locale_rx = Seq lower2 (Opt (Seq (Lit ''-'') lower2))"

definition noise_patterns :: "alt list list" where
  "noise_patterns =
    [ [(True, Lit ''../'', False), (True, Lit ''./'', False)],
      [(True, Seq locale_rx (Lit ''.js''), True)],
      [(True, locale_rx, True)],
      [(False, Lit ''-xform'', True)],
      [(True, Seq (Lit ''sha'') (Star Digit), True), (True, Lit ''aes'', True),
       (True, Lit ''des'', True), (True, Lit ''md5'', True)],
      [(True, Seq (Lit ''/'') (Seq (One Upper) (Seq (Plus Lower) (One Space))), False),
       (True, Seq (Lit ''/'') (Seq (One Upper) (Plus Lower)), True)],
      [(True, Seq (Plus Digit) (Seq (Lit '' '') (Seq (Plus Digit) (Lit '' R''))), True)],
      [(True, Lit ''xl/'', False), (True, Lit ''docProps/'', False),
       (True, Lit ''_rels/'', False), (True, Lit ''META-INF/'', False)],
      [(False, Lit ''.xml'', True), (True, Lit ''worksheets/'', False),
       (True, Lit ''theme/'', False)],
      [(True, Lit ''webpack'', False), (True, Lit ''zone.js'', True),
       (True, Lit ''readable-stream/'', False)],
      [(True, Lit ''process/'', False), (True, Lit ''stream/'', False),
       (True, Lit ''buffer'', True), (True, Lit ''events'', True),
       (True, Lit ''util'', True), (True, Lit ''path'', True)],
      [(True, Lit ''+'', False), (True, Lit ''${'', False), (True, Lit ''#'', False),
       (True, Lit ''?ref='', False)],
      [(True, Seq (Lit ''/'') (One Alpha), True)],
      [(True, Lit ''http://'', True), (False, Lit ''_ngcontent'', False)] ]"

definition noise_strings :: "string list" where
  "noise_strings =
    [''http://'', ''https://'', ''/a'', ''/P'', ''/R'', ''/V'', ''/W'',
     ''zone.js'', ''bn.js'', ''hash.js'', ''md5.js'', ''sha.js'', ''des.js'',
     ''asn1.js'', ''declare.js'', ''elliptic.js'']"

definition noise_domains :: "string list" where
  "noise_domains =
    [''www.w3.org'', ''schemas.openxmlformats.org'', ''schemas.microsoft.com'',
     ''purl.org'', ''purl.oclc.org'', ''openoffice.org'', ''docs.oasis-open.org'',
     ''sheetjs.openxmlformats.org'', ''ns.adobe.com'', ''www.xml.org'',
     ''example.com'', ''test.com'', ''localhost'', ''127.0.0.1'',
     ''fusioncharts.com'', ''jspdf.default.namespaceuri'',
     ''npmjs.org'', ''registry.npmjs.org'',
     ''github.com/indutny'', ''github.com/crypto-browserify'',
     ''jqwidgets.com'', ''ag-grid.com'']"

text \<open>
  Both predicates start with \<^verbatim>\<open>if not value: return True\<close>, which holds for \<^verbatim>\<open>None\<close> and
  for the empty string; the argument is therefore an optional string.
\<close>

definition falsy :: "string option \<Rightarrow> bool" where
  "falsy v = (case v of None \<Rightarrow> True | Some s \<Rightarrow> s = [])"

definition is_noise :: "string option \<Rightarrow> bool" where
  "is_noise v =
     (if falsy v then True
      else if the v \<in> set noise_strings then True
      else if (\<exists>p \<in> set noise_patterns. search p (the v)) then True
      else False)"

definition is_noise_domain :: "string option \<Rightarrow> bool" where
  "is_noise_domain u =
     (if falsy u then True
      else if (\<exists>d \<in> set noise_domains. substring_in d (lower (the u))) then True
      else False)"

section \<open>Validators and masking of the extension\<close>

definition is_valid_endpoint :: "string \<Rightarrow> bool" where
  "is_valid_endpoint v =
     (if v = [] \<or> length v < 3 then False
      else if is_noise (Some v) then False
      else if \<not> startswith v ''/'' then False
      else if length (split_on (CHR ''/'') v) < 2
              \<or> (\<forall>p \<in> set (filter (\<lambda>p. p \<noteq> []) (split_on (CHR ''/'') v)). length p < 2)
           then False
      else True)"

definition static_exts :: "string list" where
  "static_exts = [''.css'', ''.png'', ''.jpg'', ''.gif'', ''.svg'', ''.woff'', ''.ttf'', ''.ico'']"

definition is_valid_url :: "string \<Rightarrow> bool" where
  "is_valid_url v =
     (if v = [] \<or> length v < 15 then False
      else if is_noise_domain (Some v) then False
      else if substring_in ''{'' v \<or> substring_in ''undefined'' (lower v)
              \<or> substring_in ''null'' (lower v) then False
      else if startswith (lower v) ''data:'' then False
      else if (\<exists>e \<in> set static_exts. endswith (lower v) e) then False
      else True)"

definition secret_noise_words :: "string list" where
  "secret_noise_words =
     [''example'', ''placeholder'', ''your'', ''xxxx'', ''test'', ''sample'', ''dummy'']"

definition is_valid_secret :: "string \<Rightarrow> bool" where
  "is_valid_secret v =
     (if v = [] \<or> length v < 10 then False
      else if (\<exists>x \<in> set secret_noise_words. substring_in x (lower v)) then False
      else True)"

definition email_noise_domains :: "string list" where
  "email_noise_domains =
     [''example.com'', ''test.com'', ''domain.com'', ''placeholder.com'', ''email.com'']"

definition email_noise_words :: "string list" where
  "email_noise_words = [''example'', ''test'', ''placeholder'', ''noreply'', ''no-reply'']"

definition is_valid_email :: "string \<Rightarrow> bool" where
  "is_valid_email v =
     (if v = [] \<or> \<not> substring_in ''@'' v then False
      else if lower (last (split_on (CHR ''@'') v)) \<in> set email_noise_domains then False
      else if (\<exists>x \<in> set email_noise_words. substring_in x (lower v)) then False
      else True)"

definition noise_files :: "string list" where
  "noise_files =
     [''package.json'', ''tsconfig.json'', ''webpack'', ''babel'',
      ''eslint'', ''prettier'', ''node_modules'', ''.min.'',
      ''polyfill'', ''vendor'', ''chunk'', ''bundle'', ''.map'']"

definition is_valid_file :: "string \<Rightarrow> bool" where
  "is_valid_file v =
     (if v = [] \<or> length v < 3 then False
      else if (\<exists>x \<in> set noise_files. substring_in x (lower v)) then False
      else if endswith (lower v) ''.json'' \<and> length (last (split_on (CHR ''/'') v)) \<le> 7
           then False
      else True)"

text \<open>\<^verbatim>\<open>value[:10] + "..." + value[-4:]\<close>; the branch is only taken for more than twenty
  characters, where \<^verbatim>\<open>value[-4:]\<close> is the last four.\<close>

definition mask_secret :: "string \<Rightarrow> string" where
  "mask_secret v =
     (if length v > 20 then take 10 v @ ''...'' @ drop (length v - 4) v else v)"

section \<open>The library functions taken as parameters\<close>

text \<open>
  The module \<^verbatim>\<open>re\<close> is not part of the repository. The model takes it as a parameter with
  the two operations the code uses on user-visible patterns: compiling a pattern text
  (\<open>compile_error\<close> gives the message of \<^verbatim>\<open>re.error\<close>, or \<open>None\<close> when the text compiles;
  syntactic validity does not depend on the IGNORECASE flag) and \<^verbatim>\<open>finditer\<close>. A match
  object is the three things \<^verbatim>\<open>analyze_response\<close> reads from it: \<^verbatim>\<open>group(0)\<close>,
  \<^verbatim>\<open>lastindex\<close>, and \<^verbatim>\<open>group(1)\<close>, which is \<^verbatim>\<open>None\<close> when the first group took no part in
  the match.

  Two more results of the interpreter are parameters, because their text is not fixed by
  the repository and cannot always be written with code points below 256: \<^verbatim>\<open>str.title\<close>,
  which names a category created on the fly, and \<^verbatim>\<open>str(e)\<close> of the \<^verbatim>\<open>IndexError\<close> that
  \<^verbatim>\<open>del\<close> raises for an index.
\<close>

record rmatch =
  group0 :: string
  lastindex :: "nat option"
  group1 :: "string option"

record compiled =
  pat_source :: string
  pat_ignorecase :: bool

record py_lib =
  compile_error :: "string \<Rightarrow> string option"
  finditer :: "compiled \<Rightarrow> string \<Rightarrow> rmatch list"
  title :: "string \<Rightarrow> string"
  index_error_text :: "int \<Rightarrow> string"

type_synonym pattern = "compiled \<times> string"

section \<open>The pattern manager\<close>

subsection \<open>Built-in patterns\<close>

text \<open>The pattern texts are those of \<^verbatim>\<open>_init_builtin_patterns\<close>, character for character;
  \<open>bs\<close> is a backslash and \<open>qq\<close> the three characters \<^verbatim>\<open>"\'\<close>.\<close>

definition bs :: string where
  "bs = [CHR 0x5C]"

definition qq :: string where
  "qq = [CHR 0x22, CHR 0x5C, CHR 0x27]"

definition builtin_endpoints :: "(string \<times> string) list" where
  "builtin_endpoints =
    [ (''['' @ qq @ '']((https?:)?//['' @ qq @ ''][^'' @ qq @ '']+/api/[a-zA-Z0-9/_-]+)['' @ qq @ '']'',
         ''API URL''),
      (''['' @ qq @ ''](/api/v?'' @ bs @ ''d*/[a-zA-Z0-9/_-]{2,})['' @ qq @ '']'',
         ''API Path''),
      (''['' @ qq @ ''](/v'' @ bs @ ''d+/[a-zA-Z0-9/_-]{2,})['' @ qq @ '']'',
         ''Versioned Path''),
      (''['' @ qq @ ''](/rest/[a-zA-Z0-9/_-]{2,})['' @ qq @ '']'',
         ''REST Path''),
      (''['' @ qq @ ''](/graphql[a-zA-Z0-9/_-]*)['' @ qq @ '']'',
         ''GraphQL''),
      (''['' @ qq @ ''](/oauth[0-9]*/[a-zA-Z0-9/_-]+)['' @ qq @ '']'',
         ''OAuth''),
      (''['' @ qq @ ''](/auth[a-zA-Z0-9/_-]*)['' @ qq @ '']'',
         ''Auth''),
      (''['' @ qq @ ''](/login[a-zA-Z0-9/_-]*)['' @ qq @ '']'',
         ''Login''),
      (''['' @ qq @ ''](/logout[a-zA-Z0-9/_-]*)['' @ qq @ '']'',
         ''Logout''),
      (''['' @ qq @ ''](/token[a-zA-Z0-9/_-]*)['' @ qq @ '']'',
         ''Token''),
      (''['' @ qq @ ''](/admin[a-zA-Z0-9/_-]*)['' @ qq @ '']'',
         ''Admin''),
      (''['' @ qq @ ''](/dashboard[a-zA-Z0-9/_-]*)['' @ qq @ '']'',
         ''Dashboard''),
      (''['' @ qq @ ''](/internal[a-zA-Z0-9/_-]*)['' @ qq @ '']'',
         ''Internal''),
      (''['' @ qq @ ''](/debug[a-zA-Z0-9/_-]*)['' @ qq @ '']'',
         ''Debug''),
      (''['' @ qq @ ''](/config[a-zA-Z0-9/_-]*)['' @ qq @ '']'',
         ''Config''),
      (''['' @ qq @ ''](/backup[a-zA-Z0-9/_-]*)['' @ qq @ '']'',
         ''Backup''),
      (''['' @ qq @ ''](/private[a-zA-Z0-9/_-]*)['' @ qq @ '']'',
         ''Private''),
      (''['' @ qq @ ''](/upload[a-zA-Z0-9/_-]*)['' @ qq @ '']'',
         ''Upload''),
      (''['' @ qq @ ''](/download[a-zA-Z0-9/_-]*)['' @ qq @ '']'',
         ''Download''),
      (''['' @ qq @ ''](/'' @ bs @ ''.well-known/[a-zA-Z0-9/_-]+)['' @ qq @ '']'',
         ''Well-Known''),
      (''['' @ qq @ ''](/idp/[a-zA-Z0-9/_-]+)['' @ qq @ '']'',
         ''IDP'') ]"

definition builtin_urls :: "(string \<times> string) list" where
  "builtin_urls =
    [ (''['' @ qq @ ''](https?://[^'' @ bs @ ''s'' @ qq @ ''<>]{10,})['' @ qq @ '']'',
         ''HTTP URL''),
      (''['' @ qq @ ''](wss?://[^'' @ bs @ ''s'' @ qq @ ''<>]{10,})['' @ qq @ '']'',
         ''WebSocket''),
      (''['' @ qq @ ''](sftp://[^'' @ bs @ ''s'' @ qq @ ''<>]{10,})['' @ qq @ '']'',
         ''SFTP''),
      (''(https?://[a-zA-Z0-9.-]+'' @ bs @ ''.s3[a-zA-Z0-9.-]*'' @ bs @ ''.amazonaws'' @ bs @ ''.com[^'' @ bs @ ''s'' @ qq @ ''<>]*)'',
         ''AWS S3''),
      (''(https?://[a-zA-Z0-9.-]+'' @ bs @ ''.blob'' @ bs @ ''.core'' @ bs @ ''.windows'' @ bs @ ''.net[^'' @ bs @ ''s'' @ qq @ ''<>]*)'',
         ''Azure Blob''),
      (''(https?://storage'' @ bs @ ''.googleapis'' @ bs @ ''.com/[^'' @ bs @ ''s'' @ qq @ ''<>]*)'',
         ''GCP Storage'') ]"

definition builtin_secrets :: "(string \<times> string) list" where
  "builtin_secrets =
    [ (''(AKIA[0-9A-Z]{16})'',
         ''AWS Access Key''),
      (''(AIza[0-9A-Za-z'' @ bs @ ''-_]{35})'',
         ''Google API Key''),
      (''(sk_live_[0-9a-zA-Z]{24,})'',
         ''Stripe Live Key''),
      (''(ghp_[0-9a-zA-Z]{36})'',
         ''GitHub PAT''),
      (''(gho_[0-9a-zA-Z]{36})'',
         ''GitHub OAuth''),
      (''(ghu_[0-9a-zA-Z]{36})'',
         ''GitHub User Token''),
      (''(ghs_[0-9a-zA-Z]{36})'',
         ''GitHub Server Token''),
      (''(xox[baprs]-[0-9a-zA-Z'' @ bs @ ''-]{10,48})'',
         ''Slack Token''),
      (''(eyJ[A-Za-z0-9_-]{10,}'' @ bs @ ''.eyJ[A-Za-z0-9_-]{10,}'' @ bs @ ''.[A-Za-z0-9_-]+)'',
         ''JWT''),
      (''(-----BEGIN (?:RSA |EC )?PRIVATE KEY-----)'',
         ''Private Key''),
      (''(mongodb(?:'' @ bs @ ''+srv)?://[^'' @ bs @ ''s'' @ qq @ ''<>]+)'',
         ''MongoDB URI''),
      (''(postgres(?:ql)?://[^'' @ bs @ ''s'' @ qq @ ''<>]+)'',
         ''PostgreSQL URI''),
      (''(mysql://[a-z0-9._%+'' @ bs @ ''-]+:[^'' @ bs @ ''s:@]+@[^'' @ bs @ ''s'' @ qq @ ''<>]+)'',
         ''MySQL URI''),
      (''(?i)algolia.{0,32}([a-z0-9]{32})'' @ bs @ ''b'',
         ''Algolia API Key''),
      (''(?i)cloudflare.{0,32}(?:secret|private|access|key|token).{0,32}([a-z0-9_-]{38,42})'' @ bs @ ''b'',
         ''Cloudflare API Token''),
      (bs @ ''b(ya29'' @ bs @ ''.[a-z0-9_-]{30,})'' @ bs @ ''b'',
         ''Google OAuth2 Token''),
      (''(?i)(?:facebook|fb).{0,32}(?:api|app|secret|key).{0,32}([a-z0-9]{32})'' @ bs @ ''b'',
         ''Facebook Secret''),
      (''(EAACEdEose0cBA[A-Z0-9]{20,})'' @ bs @ ''b'',
         ''Facebook Access Token''),
      (bs @ ''b(sgp_[A-Z0-9_-]{60,70})'' @ bs @ ''b'',
         ''Segment Public Token''),
      (''(sk-[a-zA-Z0-9]{20}T3BlbkFJ[a-zA-Z0-9]{20})'',
         ''OpenAI API Key''),
      (''(sq0csp-[0-9A-Za-z'' @ bs @ ''-_]{43})'',
         ''Square OAuth Secret''),
      (''(sqOatp-[0-9A-Za-z'' @ bs @ ''-_]{22})'',
         ''Square Access Token''),
      (''(AC[a-z0-9]{32})'',
         ''Twilio Account SID''),
      (''(SK[a-z0-9]{32})'',
         ''Twilio API Key SID'') ]"

definition email_pattern :: string where
  "email_pattern =
    ''([a-zA-Z0-9._%+-]+@[a-zA-Z0-9.-]+'' @ bs @ ''.[a-zA-Z]{2,6})''"

definition file_pattern :: string where
  "file_pattern =
    ''['' @ qq @ '']([a-zA-Z0-9_/.-]+'' @ bs @
    ''.(?:sql|csv|xlsx|xls|json|xml|yaml|yml|txt|log|conf|config|cfg|ini|env|bak|backup|old|orig|copy|key|pem|crt|cer|p12|pfx|doc|docx|pdf|zip|tar|gz|rar|7z|sh|bat|ps1|py|rb|pl))['' @
    qq @ '']''"

definition compile_builtin :: "bool \<Rightarrow> (string \<times> string) list \<Rightarrow> pattern list" where
  "compile_builtin icase ps =
     map (\<lambda>(p, n). (\<lparr>pat_source = p, pat_ignorecase = icase\<rparr>, n)) ps"

definition compiled_endpoints :: "pattern list" where
  "compiled_endpoints = compile_builtin True builtin_endpoints"

definition compiled_urls :: "pattern list" where
  "compiled_urls = compile_builtin False builtin_urls"

definition compiled_secrets :: "pattern list" where
  "compiled_secrets = compile_builtin False builtin_secrets"

definition compiled_email :: compiled where
  "compiled_email = \<lparr>pat_source = email_pattern, pat_ignorecase = False\<rparr>"

definition compiled_file :: compiled where
  "compiled_file = \<lparr>pat_source = file_pattern, pat_ignorecase = True\<rparr>"

subsection \<open>Configuration\<close>

text \<open>
  The configuration has the shape of the persisted JSON object, every key present. The
  dictionary \<^verbatim>\<open>custom_categories\<close> is an association list in insertion order: assigning
  to a new key appends, assigning to an existing key replaces in place.
\<close>

record pattern_entry =
  regex :: string
  name :: string

record category_data =
  display_name :: string
  patterns :: "pattern_entry list"

record settings =
  passive_mode :: bool
  scope_only :: bool
  collect_js :: bool
  collect_html :: bool

record config =
  version :: string
  custom_categories :: "(string \<times> category_data) list"
  custom_secrets :: "pattern_entry list"
  custom_endpoints :: "pattern_entry list"
  custom_urls :: "pattern_entry list"
  settings :: settings

fun dict_set :: "('k \<times> 'v) list \<Rightarrow> 'k \<Rightarrow> 'v \<Rightarrow> ('k \<times> 'v) list" where
  "dict_set [] k v = [(k, v)]"
| "dict_set ((k', v') # d) k v = (if k' = k then (k, v) # d else (k', v') # dict_set d k v)"

definition dict_keys :: "('k \<times> 'v) list \<Rightarrow> 'k list" where
  "dict_keys d = map fst d"

definition default_config :: config where
  "default_config =
     \<lparr>version = ''1.0'', custom_categories = [], custom_secrets = [],
      custom_endpoints = [], custom_urls = [],
      settings = \<lparr>passive_mode = True, scope_only = False,
                   collect_js = True, collect_html = False\<rparr>\<rparr>"

text \<open>
  The manager's attributes, together with the two facts about the file system its
  operations depend on: the content of \<^verbatim>\<open>patterns.json\<close> (\<open>None\<close> when the file is absent
  or unreadable) and whether a write succeeds.
\<close>

record pattern_manager =
  config :: config
  custom_compiled :: "(string \<times> pattern list) list"
  custom_categories_compiled :: "(string \<times> string \<times> pattern list) list"
  config_file :: "config option"
  writable :: bool

definition load_config :: "config option \<Rightarrow> config" where
  "load_config file = (case file of Some c \<Rightarrow> c | None \<Rightarrow> default_config)"

definition save_config :: "pattern_manager \<Rightarrow> pattern_manager" where
  "save_config pm = (if writable pm then pm\<lparr>config_file := Some (config pm)\<rparr> else pm)"

subsection \<open>Compiling the custom patterns\<close>

text \<open>An entry whose text does not compile is skipped (\<^verbatim>\<open>except re.error: pass\<close>).\<close>

definition compile_entries :: "py_lib \<Rightarrow> bool \<Rightarrow> pattern_entry list \<Rightarrow> pattern list" where
  "compile_entries re icase es =
     map (\<lambda>e. (\<lparr>pat_source = regex e, pat_ignorecase = icase\<rparr>, name e))
         (filter (\<lambda>e. compile_error re (regex e) = None) es)"

text \<open>One round of the loop over \<^verbatim>\<open>custom_categories\<close>: the category is entered only
  \<^verbatim>\<open>if patterns\<close>, that is when at least one of its patterns compiled.\<close>

definition compile_category ::
  "py_lib \<Rightarrow> (string \<times> string \<times> pattern list) list \<Rightarrow> string \<times> category_data
     \<Rightarrow> (string \<times> string \<times> pattern list) list" where
  "compile_category re d item =
     (case item of (cat_key, cat_data) \<Rightarrow>
        (if compile_entries re True (patterns cat_data) \<noteq> []
         then dict_set d cat_key
                (display_name cat_data, compile_entries re True (patterns cat_data))
         else d))"

definition compile_custom_patterns :: "py_lib \<Rightarrow> pattern_manager \<Rightarrow> pattern_manager" where
  "compile_custom_patterns re pm =
     pm\<lparr>custom_compiled :=
          [(''endpoints'', compile_entries re True (custom_endpoints (config pm))),
           (''urls'', compile_entries re False (custom_urls (config pm))),
           (''secrets'', compile_entries re False (custom_secrets (config pm)))],
        custom_categories_compiled :=
          foldl (compile_category re) [] (custom_categories (config pm))\<rparr>"

text \<open>\<^verbatim>\<open>PatternManager(config_path)\<close> for a file with the given content.\<close>

definition new_pattern_manager :: "py_lib \<Rightarrow> config option \<Rightarrow> bool \<Rightarrow> pattern_manager" where
  "new_pattern_manager re file w =
     compile_custom_patterns re
       \<lparr>config = load_config file, custom_compiled = [], custom_categories_compiled = [],
        config_file = file, writable = w\<rparr>"

subsection \<open>Queries\<close>

definition builtin_categories :: "string list" where
  "builtin_categories = [''endpoints'', ''urls'', ''secrets'', ''emails'', ''files'']"

definition get_all_categories :: "pattern_manager \<Rightarrow> string list" where
  "get_all_categories pm =
     foldl (\<lambda>categories cat_key.
              if cat_key \<notin> set categories then categories @ [cat_key] else categories)
           builtin_categories (dict_keys (custom_categories_compiled pm))"

text \<open>\<^verbatim>\<open>d.get(k, [])\<close>.\<close>

definition get_or_empty :: "('k \<times> 'v list) list \<Rightarrow> 'k \<Rightarrow> 'v list" where
  "get_or_empty d k = (case map_of d k of Some v \<Rightarrow> v | None \<Rightarrow> [])"

definition get_patterns_for_category :: "pattern_manager \<Rightarrow> string \<Rightarrow> pattern list" where
  "get_patterns_for_category pm category =
     (if category = ''endpoints''
        then compiled_endpoints @ get_or_empty (custom_compiled pm) ''endpoints''
      else if category = ''urls''
        then compiled_urls @ get_or_empty (custom_compiled pm) ''urls''
      else if category = ''secrets''
        then compiled_secrets @ get_or_empty (custom_compiled pm) ''secrets''
      else if category = ''emails'' then [(compiled_email, ''Email'')]
      else if category = ''files'' then [(compiled_file, ''File'')]
      else (case map_of (custom_categories_compiled pm) category of
              Some c \<Rightarrow> snd c
            | None \<Rightarrow> []))"

definition get_custom_patterns_list :: "pattern_manager \<Rightarrow> string \<Rightarrow> pattern_entry list" where
  "get_custom_patterns_list pm category =
     (if category = ''endpoints'' then custom_endpoints (config pm)
      else if category = ''urls'' then custom_urls (config pm)
      else if category = ''secrets'' then custom_secrets (config pm)
      else (case map_of (custom_categories (config pm)) category of
              Some cat_data \<Rightarrow> patterns cat_data
            | None \<Rightarrow> []))"

subsection \<open>Mutations\<close>

text \<open>
  Each operation returns the pair \<^verbatim>\<open>(success, error_message)\<close> of the source together
  with the manager after the call. The three failures are \<^verbatim>\<open>"Invalid regex: ..."\<close>,
  \<^verbatim>\<open>"Category already exists"\<close> and \<^verbatim>\<open>"Pattern not found: ..."\<close>.
\<close>

type_synonym outcome = "bool \<times> string option"

definition append_pattern ::
  "(string \<times> category_data) list \<Rightarrow> string \<Rightarrow> pattern_entry \<Rightarrow> (string \<times> category_data) list" where
  "append_pattern d category entry =
     map (\<lambda>(k, cat_data).
            if k = category
            then (k, cat_data\<lparr>patterns := patterns cat_data @ [entry]\<rparr>)
            else (k, cat_data)) d"

definition add_to_config :: "py_lib \<Rightarrow> config \<Rightarrow> string \<Rightarrow> pattern_entry \<Rightarrow> config" where
  "add_to_config re cfg category entry =
     (if category = ''endpoints''
        then cfg\<lparr>custom_endpoints := custom_endpoints cfg @ [entry]\<rparr>
      else if category = ''urls''
        then cfg\<lparr>custom_urls := custom_urls cfg @ [entry]\<rparr>
      else if category = ''secrets''
        then cfg\<lparr>custom_secrets := custom_secrets cfg @ [entry]\<rparr>
      else cfg\<lparr>custom_categories :=
             append_pattern
               (if category \<notin> set (dict_keys (custom_categories cfg))
                then dict_set (custom_categories cfg) category
                       \<lparr>display_name = title re category, patterns = []\<rparr>
                else custom_categories cfg)
               category entry\<rparr>)"

definition add_custom_pattern ::
  "py_lib \<Rightarrow> pattern_manager \<Rightarrow> string \<Rightarrow> string \<Rightarrow> string \<Rightarrow> outcome \<times> pattern_manager" where
  "add_custom_pattern re pm category rgx nm =
     (case compile_error re rgx of
        Some e \<Rightarrow> ((False, Some (''Invalid regex: '' @ e)), pm)
      | None \<Rightarrow>
          ((True, None),
           compile_custom_patterns re
             (save_config
                (pm\<lparr>config := add_to_config re (config pm) category
                                 \<lparr>regex = rgx, name = nm\<rparr>\<rparr>))))"

definition add_custom_category ::
  "py_lib \<Rightarrow> pattern_manager \<Rightarrow> string \<Rightarrow> string \<Rightarrow> outcome \<times> pattern_manager" where
  "add_custom_category re pm key dname =
     (if key \<in> set (get_all_categories pm)
      then ((False, Some ''Category already exists''), pm)
      else ((True, None),
            compile_custom_patterns re
              (save_config
                 (pm\<lparr>config := (config pm)
                        \<lparr>custom_categories :=
                           dict_set (custom_categories (config pm)) key
                             \<lparr>display_name = dname, patterns = []\<rparr>\<rparr>\<rparr>))))"

text \<open>\<^verbatim>\<open>del xs[i]\<close>: a negative index counts from the end; \<open>None\<close> is \<^verbatim>\<open>IndexError\<close>.\<close>

definition del_at :: "'a list \<Rightarrow> int \<Rightarrow> 'a list option" where
  "del_at xs i =
     (let n = int (length xs); j = (if i < 0 then i + n else i)
      in if 0 \<le> j \<and> j < n then Some (take (nat j) xs @ drop (Suc (nat j)) xs) else None)"

definition remove_from_config :: "config \<Rightarrow> string \<Rightarrow> int \<Rightarrow> config option" where
  "remove_from_config cfg category index =
     (if category = ''endpoints''
        then map_option (\<lambda>l. cfg\<lparr>custom_endpoints := l\<rparr>) (del_at (custom_endpoints cfg) index)
      else if category = ''urls''
        then map_option (\<lambda>l. cfg\<lparr>custom_urls := l\<rparr>) (del_at (custom_urls cfg) index)
      else if category = ''secrets''
        then map_option (\<lambda>l. cfg\<lparr>custom_secrets := l\<rparr>) (del_at (custom_secrets cfg) index)
      else (case map_of (custom_categories cfg) category of
              Some cat_data \<Rightarrow>
                map_option
                  (\<lambda>l. cfg\<lparr>custom_categories :=
                          dict_set (custom_categories cfg) category (cat_data\<lparr>patterns := l\<rparr>)\<rparr>)
                  (del_at (patterns cat_data) index)
            | None \<Rightarrow> Some cfg))"

definition remove_custom_pattern ::
  "py_lib \<Rightarrow> pattern_manager \<Rightarrow> string \<Rightarrow> int \<Rightarrow> outcome \<times> pattern_manager" where
  "remove_custom_pattern re pm category index =
     (case remove_from_config (config pm) category index of
        None \<Rightarrow> ((False, Some (''Pattern not found: '' @ index_error_text re index)), pm)
      | Some cfg \<Rightarrow>
          ((True, None), compile_custom_patterns re (save_config (pm\<lparr>config := cfg\<rparr>))))"

section \<open>The extension: analysis and the ledger of seen values\<close>

text \<open>
  A message is modelled by what \<^verbatim>\<open>analyze_response\<close> reads from it: the response body as
  text (\<open>None\<close> when there is no response) and the request URL (\<open>None\<close> when reading it
  raises, in which case the source is \<^verbatim>\<open>"Unknown"\<close>). Logging and the results panel are
  left out; the list handed to the panel, \<^verbatim>\<open>new_findings\<close>, is the result of the call.
\<close>

record message_info =
  response_body :: "string option"
  request_url :: "string option"

record finding =
  f_category :: string
  f_value :: string
  f_source :: string
  f_pattern :: string
  f_message_info :: message_info

record burp_extender =
  pattern_manager :: pattern_manager
  all_findings :: "finding list"
  seen_values :: "string set"

datatype py_error = AttributeError

definition new_extender :: "pattern_manager \<Rightarrow> burp_extender" where
  "new_extender pm = \<lparr>pattern_manager = pm, all_findings = [], seen_values = {}\<rparr>"

definition clear_results :: "burp_extender \<Rightarrow> burp_extender" where
  "clear_results ext = ext\<lparr>all_findings := [], seen_values := {}\<rparr>"

text \<open>\<^verbatim>\<open>match.group(1).strip() if match.lastindex else match.group(0).strip()\<close>: calling
  \<^verbatim>\<open>strip\<close> on \<^verbatim>\<open>None\<close> raises.\<close>

definition match_value :: "rmatch \<Rightarrow> py_error + string" where
  "match_value m =
     (if lastindex m \<noteq> None \<and> lastindex m \<noteq> Some 0
      then (case group1 m of None \<Rightarrow> Inl AttributeError | Some g \<Rightarrow> Inr (strip g))
      else Inr (strip (group0 m)))"

text \<open>The chain of tests on the category inside the loop; \<open>None\<close> is \<^verbatim>\<open>continue\<close>, and
  the value that goes on to the ledger is masked for secrets.\<close>

definition validate_value :: "string \<Rightarrow> string \<Rightarrow> string option" where
  "validate_value category v =
     (if category = ''endpoints'' then (if \<not> is_valid_endpoint v then None else Some v)
      else if category = ''urls'' then (if \<not> is_valid_url v then None else Some v)
      else if category = ''secrets''
        then (if \<not> is_valid_secret v then None else Some (mask_secret v))
      else if category = ''emails'' then (if \<not> is_valid_email v then None else Some v)
      else if category = ''files'' then (if \<not> is_valid_file v then None else Some v)
      else Some v)"

definition finding_key :: "string \<Rightarrow> string \<Rightarrow> string" where
  "finding_key category v = category @ '':'' @ v"

definition add_finding ::
  "burp_extender \<Rightarrow> string \<Rightarrow> string \<Rightarrow> string \<Rightarrow> string \<Rightarrow> message_info
     \<Rightarrow> finding option \<times> burp_extender" where
  "add_finding ext category v src pattern_name mi =
     (if finding_key category v \<in> seen_values ext then (None, ext)
      else (let f = \<lparr>f_category = category, f_value = v, f_source = src,
                      f_pattern = pattern_name, f_message_info = mi\<rparr>
            in (Some f,
                ext\<lparr>seen_values := insert (finding_key category v) (seen_values ext),
                    all_findings := all_findings ext @ [f]\<rparr>)))"

text \<open>
  The three nested loops visit the matches in a fixed order: category by category,
  pattern by pattern, match by match. \<open>scan_events\<close> is that sequence, each match with its
  category and the name of its pattern.
\<close>

type_synonym event = "string \<times> string \<times> rmatch"

definition pattern_events :: "py_lib \<Rightarrow> string \<Rightarrow> string \<Rightarrow> pattern \<Rightarrow> event list" where
  "pattern_events re body category p =
     map (\<lambda>m. (category, snd p, m)) (finditer re (fst p) body)"

definition category_events :: "py_lib \<Rightarrow> pattern_manager \<Rightarrow> string \<Rightarrow> string \<Rightarrow> event list" where
  "category_events re pm body category =
     concat (map (pattern_events re body category) (get_patterns_for_category pm category))"

definition scan_events :: "py_lib \<Rightarrow> pattern_manager \<Rightarrow> string \<Rightarrow> event list" where
  "scan_events re pm body =
     concat (map (category_events re pm body) (get_all_categories pm))"

text \<open>The loop body, run over the sequence of matches; an exception ends the run with
  the ledger as it is at that point.\<close>

fun process_matches ::
  "message_info \<Rightarrow> string \<Rightarrow> event list \<Rightarrow> burp_extender \<Rightarrow> finding list
     \<Rightarrow> (py_error + finding list) \<times> burp_extender" where
  "process_matches mi url [] ext new_findings = (Inr new_findings, ext)"
| "process_matches mi url ((category, pattern_name, m) # es) ext new_findings =
     (case match_value m of
        Inl e \<Rightarrow> (Inl e, ext)
      | Inr v \<Rightarrow>
          (case validate_value category v of
             None \<Rightarrow> process_matches mi url es ext new_findings
           | Some v' \<Rightarrow>
               (case add_finding ext category v' url pattern_name mi of
                  (None, ext') \<Rightarrow> process_matches mi url es ext' new_findings
                | (Some f, ext') \<Rightarrow> process_matches mi url es ext' (new_findings @ [f]))))"

definition analyze_response ::
  "py_lib \<Rightarrow> burp_extender \<Rightarrow> message_info \<Rightarrow> (py_error + finding list) \<times> burp_extender" where
  "analyze_response re ext mi =
     (case response_body mi of
        None \<Rightarrow> (Inr [], ext)
      | Some body \<Rightarrow>
          (if length body < 50 then (Inr [], ext)
           else process_matches mi
                  (case request_url mi of Some u \<Rightarrow> u | None \<Rightarrow> ''Unknown'')
                  (scan_events re (pattern_manager ext) body) ext []))"

section \<open>Libraries for the worked examples\<close>

text \<open>
  The examples need concrete libraries. The first knows patterns without metacharacters
  only (letters, digits and the underscore), which match their own text, leftmost first
  and without overlap, and have no group; every other pattern finds nothing. A pattern
  text with unbalanced parentheses does not compile. Its \<^verbatim>\<open>title\<close> is \<^verbatim>\<open>str.title\<close> on ASCII
  text (a letter after a non-letter is upper-cased, a letter after a letter is
  lower-cased), and its \<^verbatim>\<open>IndexError\<close> texts are those of CPython. On the pattern texts,
  keys, indices and bodies of the examples it agrees with the interpreter: the bodies
  contain no match of a built-in pattern.
\<close>

definition plain_char :: "char \<Rightarrow> bool" where
  "plain_char c = (c \<in> set ascii_lower \<or> c \<in> set ascii_upper \<or> c \<in> set ascii_digits
                    \<or> c = CHR ''_'')"

definition same_text :: "bool \<Rightarrow> string \<Rightarrow> string \<Rightarrow> bool" where
  "same_text icase a b = (if icase then lower a = lower b else a = b)"

fun occurrences :: "bool \<Rightarrow> string \<Rightarrow> string \<Rightarrow> rmatch list" where
  "occurrences icase lit [] = []"
| "occurrences icase lit (c # cs) =
     (if lit \<noteq> [] \<and> length lit \<le> length (c # cs)
         \<and> same_text icase (take (length lit) (c # cs)) lit
      then \<lparr>group0 = take (length lit) (c # cs), lastindex = None, group1 = None\<rparr>
             # occurrences icase lit (drop (length lit - 1) cs)
      else occurrences icase lit cs)"

definition upper_char :: "char \<Rightarrow> char" where
  "upper_char c = (case map_of (zip ascii_lower ascii_upper) c of Some d \<Rightarrow> d | None \<Rightarrow> c)"

fun title_from :: "bool \<Rightarrow> string \<Rightarrow> string" where
  "title_from prev [] = []"
| "title_from prev (c # cs) =
     (if c \<in> set ascii_lower then (if prev then c else upper_char c) # title_from True cs
      else if c \<in> set ascii_upper then (if prev then lower_char c else c) # title_from True cs
      else c # title_from False cs)"

definition ascii_title :: "string \<Rightarrow> string" where
  "ascii_title s = title_from False s"

definition cpython_index_error :: "int \<Rightarrow> string" where
  "cpython_index_error i =
     (if i < - 9223372036854775808 \<or> 9223372036854775807 < i
      then ''cannot fit '' @ [CHR 0x27] @ ''int'' @ [CHR 0x27] @ '' into an index-sized integer''
      else ''list assignment index out of range'')"

definition literal_re :: py_lib where
  "literal_re =
     \<lparr>compile_error =
        (\<lambda>r. if length (filter (\<lambda>c. c = CHR ''('') r) = length (filter (\<lambda>c. c = CHR '')'') r)
              then None else Some ''unbalanced parenthesis''),
      finditer =
        (\<lambda>p body. if list_all plain_char (pat_source p)
                   then occurrences (pat_ignorecase p) (pat_source p) body else []),
      title = ascii_title,
      index_error_text = cpython_index_error\<rparr>"

text \<open>
  The second library knows one pattern more, \<^verbatim>\<open>(zzz)?tok_(1)\<close>, compiled without
  IGNORECASE. Its second group is the last to close, so \<^verbatim>\<open>lastindex\<close> is 2 in every match,
  and its first group takes part only where \<^verbatim>\<open>zzz\<close> precedes the token: elsewhere
  \<^verbatim>\<open>group(1)\<close> is \<^verbatim>\<open>None\<close>.
\<close>

fun optional_group_matches :: "string \<Rightarrow> rmatch list" where
  "optional_group_matches [] = []"
| "optional_group_matches (c # cs) =
     (if startswith (c # cs) ''zzztok_1''
      then \<lparr>group0 = ''zzztok_1'', lastindex = Some 2, group1 = Some ''zzz''\<rparr>
             # optional_group_matches (drop 7 cs)
      else if startswith (c # cs) ''tok_1''
      then \<lparr>group0 = ''tok_1'', lastindex = Some 2, group1 = None\<rparr>
             # optional_group_matches (drop 4 cs)
      else optional_group_matches cs)"

definition grouped_re :: py_lib where
  "grouped_re =
     literal_re
       \<lparr>finditer :=
          (\<lambda>p body. if pat_source p = ''(zzz)?tok_(1)'' \<and> \<not> pat_ignorecase p
                     then optional_group_matches body
                     else finditer literal_re p body)\<rparr>"

section \<open>Observations on a scan\<close>

text \<open>
  Three notions used to state what a call of \<^verbatim>\<open>analyze_response\<close> does: the ledger key
  of a finding, the key under which a match reaches \<^verbatim>\<open>_add_finding\<close> (none when the
  match is discarded by its validator), and whether reading the value of a match raises.
\<close>

definition key_of :: "finding \<Rightarrow> string" where
  "key_of f = finding_key (f_category f) (f_value f)"

definition accepted_key :: "event \<Rightarrow> string option" where
  "accepted_key ev =
     (case ev of (category, pattern_name, m) \<Rightarrow>
        (case match_value m of
           Inl e \<Rightarrow> None
         | Inr v \<Rightarrow> map_option (finding_key category) (validate_value category v)))"

definition raises :: "event \<Rightarrow> bool" where
  "raises ev =
     (case ev of (category, pattern_name, m) \<Rightarrow>
        (case match_value m of Inl e \<Rightarrow> True | Inr v \<Rightarrow> False))"

text \<open>The matches a call of \<^verbatim>\<open>analyze_response\<close> visits: none when there is no response or
  the body is shorter than fifty characters.\<close>

definition scanned :: "py_lib \<Rightarrow> burp_extender \<Rightarrow> message_info \<Rightarrow> event list" where
  "scanned re ext mi =
     (case response_body mi of
        None \<Rightarrow> []
      | Some body \<Rightarrow>
          if length body < 50 then [] else scan_events re (pattern_manager ext) body)"

section \<open>Worked examples\<close>

text \<open>
  A manager built from the default configuration, managers with one custom pattern, and
  two pages that contain the same token. The bodies are longer than fifty characters.
\<close>

definition pad50 :: string where
  "pad50 = ''xxxxxxxxxxxxxxxxxxxxxxxxxxxxxxxxxxxxxxxxxxxxxxxxxx''"

definition fresh_manager :: pattern_manager where
  "fresh_manager = new_pattern_manager literal_re None True"

definition token :: string where
  "token = ''tok_4f9a8b7c6d5e4f3a2b1c0d9e''"

definition token_manager :: pattern_manager where
  "token_manager =
     snd (add_custom_pattern literal_re fresh_manager ''secrets'' token ''Internal Token'')"

definition page_a :: message_info where
  "page_a =
     \<lparr>response_body = Some (''// build 4821 '' @ pad50 @ '' var k = '' @ token @ '';''),
      request_url = Some ''https://shop.local/static/app.js''\<rparr>"

definition page_b :: message_info where
  "page_b =
     \<lparr>response_body = Some (''var k = '' @ token @ ''; '' @ pad50),
      request_url = Some ''https://shop.local/static/vendor.js''\<rparr>"

definition token_finding :: finding where
  "token_finding =
     \<lparr>f_category = ''secrets'', f_value = ''tok_4f9a8b...0d9e'',
      f_source = ''https://shop.local/static/app.js'', f_pattern = ''Internal Token'',
      f_message_info = page_a\<rparr>"


definition category_manager :: pattern_manager where
  "category_manager =
     snd (add_custom_pattern literal_re fresh_manager ''tokens'' ''tok_1'' ''Short Token'')"



definition tokens_declared :: pattern_manager where
  "tokens_declared = snd (add_custom_category literal_re fresh_manager ''tokens'' ''Tokens'')"

definition three_categories :: pattern_manager where
  "three_categories =
     snd (add_custom_pattern literal_re
            (snd (add_custom_category literal_re
                    (snd (add_custom_pattern literal_re fresh_manager ''zeta'' ''tok_1'' ''Z''))
                    ''middle'' ''Middle''))
            ''alpha'' ''tok_2'' ''A'')"

text \<open>
  Two short pages (37 characters) with the long token; a page with both tokens and a
  second one from another source; and managers whose custom secrets patterns are the
  grouped pattern and the long token, in the one order and in the other.
\<close>

definition short_a :: message_info where
  "short_a =
     \<lparr>response_body = Some (''var k = '' @ token @ '';''),
      request_url = Some ''https://shop.local/static/s1.js''\<rparr>"

definition short_b :: message_info where
  "short_b =
     \<lparr>response_body = Some (''var k = '' @ token @ '';''),
      request_url = Some ''https://shop.local/static/s2.js''\<rparr>"

definition both_tokens :: string where
  "both_tokens = pad50 @ '' a = tok_1; k = '' @ token @ '';''"

definition page_d :: message_info where
  "page_d =
     \<lparr>response_body = Some both_tokens,
      request_url = Some ''https://shop.local/static/d.js''\<rparr>"

definition page_e :: message_info where
  "page_e =
     \<lparr>response_body = Some both_tokens,
      request_url = Some ''https://shop.local/static/e.js''\<rparr>"

definition grouped_manager :: pattern_manager where
  "grouped_manager =
     snd (add_custom_pattern grouped_re (new_pattern_manager grouped_re None True)
            ''secrets'' ''(zzz)?tok_(1)'' ''Grouped'')"

definition grouped_then_token :: pattern_manager where
  "grouped_then_token =
     snd (add_custom_pattern grouped_re grouped_manager ''secrets'' token ''Internal Token'')"

definition token_then_grouped :: pattern_manager where
  "token_then_grouped =
     snd (add_custom_pattern grouped_re
            (snd (add_custom_pattern grouped_re (new_pattern_manager grouped_re None True)
                    ''secrets'' token ''Internal Token''))
            ''secrets'' ''(zzz)?tok_(1)'' ''Grouped'')"

definition page_d_finding :: finding where
  "page_d_finding =
     \<lparr>f_category = ''secrets'', f_value = ''tok_4f9a8b...0d9e'',
      f_source = ''https://shop.local/static/d.js'', f_pattern = ''Internal Token'',
      f_message_info = page_d\<rparr>"

section \<open>Properties of the noise predicates, the endpoint validator and masking\<close>

lemma split_on_not_Nil: "split_on sep s \<noteq> []"
  by (induction s) (auto split: list.splits)

lemma split_on_leading_sep:
  assumes "startswith v [sep]"
  shows "2 \<le> length (split_on sep v)"
proof (cases v)
  case Nil
  with assms show ?thesis by (simp add: startswith_def)
next
  case (Cons c cs)
  with assms have "c = sep" by (simp add: startswith_def)
  moreover have "1 \<le> length (split_on sep cs)"
    using split_on_not_Nil [of sep cs] by (cases "split_on sep cs") auto
  ultimately show ?thesis using Cons by simp
qed

lemma api_v2_users_not_noise: "\<not> is_noise (Some ''/api/v2/users'')"
  by code_simp

text \<open>
  C10. Both noise predicates answer True on the empty string and on an absent value
  (\<^verbatim>\<open>None\<close>): the empty extracted value is classified as noise, nothing is raised and
  nothing is accepted.
\<close>

theorem noise_predicates_on_empty:
  "is_noise (Some []) = True \<and> is_noise_domain (Some []) = True
   \<and> is_noise None = True \<and> is_noise_domain None = True"
  by (simp add: is_noise_def is_noise_domain_def falsy_def)

text \<open>
  C3. Masking keeps a value of at most twenty characters as it is, and turns a longer one
  into its first ten characters, three dots and its last four characters (seventeen
  characters in all). The thirty-character example masks to \<^verbatim>\<open>ABCDEFGHIJ...GHIJ\<close>, and a
  fifteen-character value is stored unmasked.
\<close>

theorem mask_secret_spec:
  "(length v > 20 \<longrightarrow>
      mask_secret v = take 10 v @ ''...'' @ drop (length v - 4) v
      \<and> length (take 10 v) = 10 \<and> length (drop (length v - 4) v) = 4
      \<and> length (mask_secret v) = 17)
   \<and> (length v \<le> 20 \<longrightarrow> mask_secret v = v)
   \<and> (length v = 15 \<longrightarrow> mask_secret v = v)
   \<and> mask_secret ''ABCDEFGHIJ1234567890ABCDEFGHIJ'' = ''ABCDEFGHIJ...GHIJ''"
  by (auto simp: mask_secret_def)

theorem mask_secret_spec_witness:
  "length ''ABCDEFGHIJ1234567890ABCDEFGHIJ'' > 20
   \<and> mask_secret ''ABCDEFGHIJ1234567890ABCDEFGHIJ'' = ''ABCDEFGHIJ...GHIJ''
   \<and> length (mask_secret ''ABCDEFGHIJ1234567890ABCDEFGHIJ'') = 17
   \<and> length ''sk_0123456789ab'' = 15
   \<and> mask_secret ''sk_0123456789ab'' = ''sk_0123456789ab''"
  using mask_secret_spec [of "''ABCDEFGHIJ1234567890ABCDEFGHIJ''"]
        mask_secret_spec [of "''sk_0123456789ab''"]
  by simp

text \<open>
  The thirty-character example does not mask to the eighteen-character string
  \<^verbatim>\<open>ABCDEFGHIJ...FGHIJ\<close>, which would keep the last five characters.
\<close>

theorem mask_secret_example_counterexample:
  "mask_secret ''ABCDEFGHIJ1234567890ABCDEFGHIJ'' \<noteq> ''ABCDEFGHIJ...FGHIJ''"
  by (simp add: mask_secret_def)

text \<open>
  C5. The endpoint validator rejects a value exactly when it is noise, or shorter than
  three characters, or does not start with \<^verbatim>\<open>/\<close>, or every non-empty segment between
  slashes is shorter than two characters. The count of pieces it tests includes the empty
  piece before the leading slash, so that test never rejects a value that starts with
  \<^verbatim>\<open>/\<close>, and one segment of two or more characters is enough. \<^verbatim>\<open>/api/v2/users\<close> is
  accepted, \<^verbatim>\<open>/a\<close> is rejected, and so is every value that does not start with \<^verbatim>\<open>/\<close>.
\<close>

theorem is_valid_endpoint_spec:
  "(\<not> is_valid_endpoint v \<longleftrightarrow>
      is_noise (Some v) \<or> length v < 3 \<or> \<not> startswith v ''/''
      \<or> (\<forall>p \<in> set (filter (\<lambda>p. p \<noteq> []) (split_on (CHR ''/'') v)). length p < 2))
   \<and> (\<not> startswith v ''/'' \<longrightarrow> \<not> is_valid_endpoint v)
   \<and> is_valid_endpoint ''/api/v2/users''
   \<and> \<not> is_valid_endpoint ''/a''"
proof -
  have pieces: "startswith v ''/'' \<Longrightarrow> \<not> length (split_on (CHR ''/'') v) < 2"
    using split_on_leading_sep [of v "CHR ''/''"] by simp
  have general: "\<not> is_valid_endpoint v \<longleftrightarrow>
      is_noise (Some v) \<or> length v < 3 \<or> \<not> startswith v ''/''
      \<or> (\<forall>p \<in> set (filter (\<lambda>p. p \<noteq> []) (split_on (CHR ''/'') v)). length p < 2)"
    using pieces unfolding is_valid_endpoint_def by auto
  have no_slash: "\<not> startswith v ''/'' \<longrightarrow> \<not> is_valid_endpoint v"
    unfolding is_valid_endpoint_def by simp
  have accepted: "is_valid_endpoint ''/api/v2/users''"
    using api_v2_users_not_noise
    by (simp add: is_valid_endpoint_def startswith_def)
  have short: "\<not> is_valid_endpoint ''/a''"
    by (simp add: is_valid_endpoint_def)
  from general no_slash accepted short show ?thesis by blast
qed

theorem is_valid_endpoint_spec_witness:
  "\<not> startswith ''api/v2/users'' ''/'' \<and> \<not> is_valid_endpoint ''api/v2/users''
   \<and> list_all (\<lambda>p. length p < 2) (filter (\<lambda>p. p \<noteq> []) (split_on (CHR ''/'') ''/x/y''))
   \<and> \<not> is_valid_endpoint ''/x/y''"
proof -
  have a: "\<not> startswith ''api/v2/users'' ''/''"
    by (simp add: startswith_def)
  have b: "\<forall>p \<in> set (filter (\<lambda>p. p \<noteq> []) (split_on (CHR ''/'') ''/x/y'')). length p < 2"
    by simp
  have c: "list_all (\<lambda>p. length p < 2) (filter (\<lambda>p. p \<noteq> []) (split_on (CHR ''/'') ''/x/y''))"
    by simp
  from a b c is_valid_endpoint_spec [of "''api/v2/users''"] is_valid_endpoint_spec [of "''/x/y''"]
  show ?thesis by blast
qed

text \<open>
  \<^verbatim>\<open>/admin\<close> has a single non-empty segment, so it has fewer than two non-empty
  segments, yet the validator accepts it: the equivalence with "fewer than two non-empty
  segments" among the reasons for rejection fails there.
\<close>

theorem is_valid_endpoint_segments_counterexample:
  "\<not> (\<not> is_valid_endpoint ''/admin'' \<longleftrightarrow>
        is_noise (Some ''/admin'') \<or> length ''/admin'' < 3 \<or> \<not> startswith ''/admin'' ''/''
        \<or> length (filter (\<lambda>p. p \<noteq> []) (split_on (CHR ''/'') ''/admin'')) < 2
        \<or> (\<forall>p \<in> set (filter (\<lambda>p. p \<noteq> []) (split_on (CHR ''/'') ''/admin'')). length p < 2))"
proof -
  have "is_valid_endpoint ''/admin''" by code_simp
  moreover have "length (filter (\<lambda>p. p \<noteq> []) (split_on (CHR ''/'') ''/admin'')) < 2"
    by simp
  ultimately show ?thesis by blast
qed

section \<open>The ledger absorbs repeats\<close>

lemma add_finding_cases:
  "add_finding ext c v u pn mi = (r, ext') \<Longrightarrow>
     pattern_manager ext' = pattern_manager ext
     \<and> finding_key c v \<in> seen_values ext'
     \<and> seen_values ext' = insert (finding_key c v) (seen_values ext)
     \<and> (finding_key c v \<in> seen_values ext \<longrightarrow> r = None \<and> ext' = ext)
     \<and> (finding_key c v \<notin> seen_values ext \<longrightarrow>
           r = Some \<lparr>f_category = c, f_value = v, f_source = u, f_pattern = pn,
                     f_message_info = mi\<rparr>
           \<and> all_findings ext' =
               all_findings ext @ [\<lparr>f_category = c, f_value = v, f_source = u, f_pattern = pn,
                                    f_message_info = mi\<rparr>])"
  by (auto simp: add_finding_def Let_def split: if_splits)

lemma process_matches_effect:
  "process_matches mi url es ext acc = (Inr fs, ext') \<Longrightarrow>
     pattern_manager ext' = pattern_manager ext
     \<and> (\<exists>new. fs = acc @ new \<and> all_findings ext' = all_findings ext @ new
              \<and> seen_values ext' = seen_values ext \<union> key_of ` set new
              \<and> (\<forall>f \<in> set new. key_of f \<notin> seen_values ext))
     \<and> (\<forall>ev \<in> set es. \<not> raises ev)
     \<and> (\<forall>ev \<in> set es. \<forall>k. accepted_key ev = Some k \<longrightarrow> k \<in> seen_values ext')"
proof (induction es arbitrary: ext acc)
  case Nil
  then show ?case by simp
next
  case (Cons ev es)
  obtain c pn m where ev: "ev = (c, pn, m)" by (cases ev) auto
  from Cons.prems ev obtain v where v: "match_value m = Inr v"
    by (cases "match_value m") auto
  have ev_ok: "\<not> raises ev"
    using ev v by (simp add: raises_def)
  show ?case
  proof (cases "validate_value c v")
    case None
    with Cons.prems ev v have "process_matches mi url es ext acc = (Inr fs, ext')" by simp
    note IH = Cons.IH [OF this]
    have ev_key: "accepted_key ev = None"
      using ev v None by (simp add: accepted_key_def)
    have no_raise: "\<forall>e \<in> set (ev # es). \<not> raises e"
      using ev_ok IH by simp
    have keys: "\<forall>e \<in> set (ev # es). \<forall>k. accepted_key e = Some k \<longrightarrow> k \<in> seen_values ext'"
      using ev_key IH by simp
    from IH no_raise keys show ?thesis by blast
  next
    case (Some v')
    have ev_key: "accepted_key ev = Some (finding_key c v')"
      using ev v Some by (simp add: accepted_key_def)
    obtain r ext1 where af: "add_finding ext c v' url pn mi = (r, ext1)"
      by (cases "add_finding ext c v' url pn mi") auto
    note afc = add_finding_cases [OF af]
    show ?thesis
    proof (cases "finding_key c v' \<in> seen_values ext")
      case True
      with afc have r: "r = None" "ext1 = ext" by auto
      with Cons.prems ev v Some af have "process_matches mi url es ext acc = (Inr fs, ext')"
        by simp
      note IH = Cons.IH [OF this]
      from IH obtain new where new: "fs = acc @ new"
        "seen_values ext' = seen_values ext \<union> key_of ` set new" by blast
      have key_in: "finding_key c v' \<in> seen_values ext'"
        using True new(2) by blast
      have no_raise: "\<forall>e \<in> set (ev # es). \<not> raises e"
        using ev_ok IH by simp
      have keys: "\<forall>e \<in> set (ev # es). \<forall>k. accepted_key e = Some k \<longrightarrow> k \<in> seen_values ext'"
        using ev_key key_in IH by simp
      from IH no_raise keys show ?thesis by blast
    next
      case False
      define f where "f = \<lparr>f_category = c, f_value = v', f_source = url, f_pattern = pn,
                             f_message_info = mi\<rparr>"
      from False afc have f: "r = Some f" "all_findings ext1 = all_findings ext @ [f]"
        by (simp_all add: f_def)
      have kf: "key_of f = finding_key c v'"
        by (simp add: f_def key_of_def)
      from Cons.prems ev v Some af f
      have run: "process_matches mi url es ext1 (acc @ [f]) = (Inr fs, ext')" by simp
      from Cons.IH [OF run] obtain new where new:
        "pattern_manager ext' = pattern_manager ext1"
        "fs = (acc @ [f]) @ new" "all_findings ext' = all_findings ext1 @ new"
        "seen_values ext' = seen_values ext1 \<union> key_of ` set new"
        "\<forall>g \<in> set new. key_of g \<notin> seen_values ext1"
        "\<forall>ev \<in> set es. \<not> raises ev"
        "\<forall>ev \<in> set es. \<forall>k. accepted_key ev = Some k \<longrightarrow> k \<in> seen_values ext'"
        by blast
      have s1: "seen_values ext1 = insert (finding_key c v') (seen_values ext)"
        using afc by simp
      have a: "fs = acc @ (f # new)" using new(2) by simp
      have b: "all_findings ext' = all_findings ext @ (f # new)" using new(3) f(2) by simp
      have c: "seen_values ext' = seen_values ext \<union> key_of ` set (f # new)"
        using new(4) s1 kf by auto
      have d: "\<forall>g \<in> set (f # new). key_of g \<notin> seen_values ext"
        using new(5) s1 kf False by auto
      have ex: "\<exists>n. fs = acc @ n \<and> all_findings ext' = all_findings ext @ n
              \<and> seen_values ext' = seen_values ext \<union> key_of ` set n
              \<and> (\<forall>g \<in> set n. key_of g \<notin> seen_values ext)"
        using a b c d by blast
      have pm: "pattern_manager ext' = pattern_manager ext"
        using new(1) afc by simp
      have key_in: "finding_key c v' \<in> seen_values ext'"
        using new(4) s1 by blast
      have no_raise: "\<forall>e \<in> set (ev # es). \<not> raises e"
        using ev_ok new(6) by simp
      have keys: "\<forall>e \<in> set (ev # es). \<forall>k. accepted_key e = Some k \<longrightarrow> k \<in> seen_values ext'"
        using ev_key key_in new(7) by simp
      from pm ex no_raise keys show ?thesis by blast
    qed
  qed
qed

lemma process_matches_replay:
  "(\<forall>ev \<in> set es. \<not> raises ev) \<Longrightarrow>
   (\<forall>ev \<in> set es. \<forall>k. accepted_key ev = Some k \<longrightarrow> k \<in> seen_values ext) \<Longrightarrow>
   process_matches mi url es ext acc = (Inr acc, ext)"
proof (induction es)
  case Nil
  then show ?case by simp
next
  case (Cons ev es)
  obtain c pn m where ev: "ev = (c, pn, m)" by (cases ev) auto
  from Cons.prems(1) ev obtain v where v: "match_value m = Inr v"
    by (cases "match_value m") (auto simp: raises_def)
  from Cons have IH: "process_matches mi url es ext acc = (Inr acc, ext)" by simp
  show ?case
  proof (cases "validate_value c v")
    case None
    with ev v IH show ?thesis by simp
  next
    case (Some v')
    with Cons.prems(2) ev v have "finding_key c v' \<in> seen_values ext"
      by (auto simp: accepted_key_def)
    then have "add_finding ext c v' url pn mi = (None, ext)"
      by (simp add: add_finding_def)
    with ev v Some IH show ?thesis by simp
  qed
qed

text \<open>A run whose matches all have a readable value returns normally.\<close>

lemma process_matches_returns:
  "(\<forall>ev \<in> set es. \<not> raises ev) \<Longrightarrow> \<exists>fs ext'. process_matches mi url es ext acc = (Inr fs, ext')"
proof (induction es arbitrary: ext acc)
  case Nil
  then show ?case by simp
next
  case (Cons ev es)
  obtain c pn m where ev: "ev = (c, pn, m)" by (cases ev) auto
  from Cons.prems ev obtain v where v: "match_value m = Inr v"
    by (cases "match_value m") (auto simp: raises_def)
  from Cons.prems have rest: "\<forall>e \<in> set es. \<not> raises e" by simp
  show ?case
  proof (cases "validate_value c v")
    case None
    with ev v Cons.IH [OF rest, of ext acc] show ?thesis by simp
  next
    case (Some v')
    obtain r ext1 where af: "add_finding ext c v' url pn mi = (r, ext1)"
      by (cases "add_finding ext c v' url pn mi") auto
    show ?thesis
    proof (cases r)
      case None
      with ev v Some af Cons.IH [OF rest, of ext1 acc] show ?thesis by simp
    next
      case (Some f)
      with ev v \<open>validate_value c v = Some v'\<close> af Cons.IH [OF rest, of ext1 "acc @ [f]"]
      show ?thesis by simp
    qed
  qed
qed

lemma analyze_repeat:
  assumes "analyze_response re ext mi = (Inr fs, ext')"
  shows "analyze_response re ext' mi = (Inr [], ext')
         \<and> all_findings ext' = all_findings ext @ fs
         \<and> seen_values ext' = seen_values ext \<union> key_of ` set fs"
proof (cases "response_body mi")
  case None
  with assms show ?thesis by (auto simp: analyze_response_def)
next
  case (Some body)
  show ?thesis
  proof (cases "length body < 50")
    case True
    with assms Some show ?thesis by (auto simp: analyze_response_def)
  next
    case False
    define url where "url = (case request_url mi of Some u \<Rightarrow> u | None \<Rightarrow> ''Unknown'')"
    define es where "es = scan_events re (pattern_manager ext) body"
    from assms Some False have run: "process_matches mi url es ext [] = (Inr fs, ext')"
      by (simp add: analyze_response_def url_def es_def)
    note eff = process_matches_effect [OF run]
    from eff have same: "scan_events re (pattern_manager ext') body = es"
      by (simp add: es_def)
    from eff have "process_matches mi url es ext' [] = (Inr [], ext')"
      by (intro process_matches_replay) blast+
    with Some False same have "analyze_response re ext' mi = (Inr [], ext')"
      by (simp add: analyze_response_def url_def)
    with eff show ?thesis by auto
  qed
qed

lemma analyze_as_scan:
  "analyze_response re ext mi
     = process_matches mi (case request_url mi of Some u \<Rightarrow> u | None \<Rightarrow> ''Unknown'')
         (scanned re ext mi) ext []"
  by (simp add: analyze_response_def scanned_def split: option.splits)

lemma page_d_raises:
  "fst (analyze_response grouped_re (new_extender token_then_grouped) page_d) = Inl AttributeError"
  by code_simp

lemma page_d_recorded:
  "all_findings (snd (analyze_response grouped_re (new_extender token_then_grouped) page_d))
     = [page_d_finding]"
  by code_simp

lemma page_d_ledger:
  "seen_values (snd (analyze_response grouped_re (new_extender token_then_grouped) page_d))
     = {''secrets:tok_4f9a8b...0d9e''}"
  by code_simp

lemma page_d_raises_again:
  "fst (analyze_response grouped_re
          (snd (analyze_response grouped_re (new_extender token_then_grouped) page_d)) page_d)
     = Inl AttributeError"
  by code_simp

text \<open>
  C1. A call of \<^verbatim>\<open>analyze_response\<close> returns its new findings unless reading the value of
  one of the matches it visits raises. When a call on a message returns, a second call on
  the same message returns the empty list and changes nothing: the findings of the first
  call are what it appended to \<^verbatim>\<open>all_findings\<close>, and their keys are what it added to
  \<^verbatim>\<open>seen_values\<close>, so every accepted value is already in the ledger. When a match has
  groups and its first group took no part, the call raises instead: with the custom
  secrets patterns \<^verbatim>\<open>tok_4f9a8b7c6d5e4f3a2b1c0d9e\<close> and \<^verbatim>\<open>(zzz)?tok_(1)\<close> and a page that
  contains both tokens, the first call records the finding of the long token in
  \<^verbatim>\<open>all_findings\<close> and in the ledger and then raises \<^verbatim>\<open>AttributeError\<close>, and the second
  call raises again.
\<close>

theorem analyze_twice:
  "((\<forall>ev \<in> set (scanned re ext mi). \<not> raises ev)
      \<longleftrightarrow> (\<exists>gs ext1. analyze_response re ext mi = (Inr gs, ext1)))
   \<and> (analyze_response re ext mi = (Inr fs, ext') \<longrightarrow>
        analyze_response re ext' mi = (Inr [], ext')
      \<and> all_findings ext' = all_findings ext @ fs
      \<and> seen_values ext' = seen_values ext \<union> key_of ` set fs)
   \<and> fst (analyze_response grouped_re (new_extender token_then_grouped) page_d)
       = Inl AttributeError
   \<and> all_findings (snd (analyze_response grouped_re (new_extender token_then_grouped) page_d))
       = [page_d_finding]
   \<and> seen_values (snd (analyze_response grouped_re (new_extender token_then_grouped) page_d))
       = {''secrets:tok_4f9a8b...0d9e''}
   \<and> fst (analyze_response grouped_re
            (snd (analyze_response grouped_re (new_extender token_then_grouped) page_d)) page_d)
       = Inl AttributeError"
proof -
  have returns: "\<exists>gs ext1. analyze_response re ext mi = (Inr gs, ext1)"
    if "\<forall>ev \<in> set (scanned re ext mi). \<not> raises ev"
    using process_matches_returns [OF that] by (simp add: analyze_as_scan)
  have quiet: "\<forall>ev \<in> set (scanned re ext mi). \<not> raises ev"
    if "analyze_response re ext mi = (Inr gs, ext1)" for gs ext1
    using process_matches_effect [OF that [unfolded analyze_as_scan]] by blast
  have general: "((\<forall>ev \<in> set (scanned re ext mi). \<not> raises ev)
      \<longleftrightarrow> (\<exists>gs ext1. analyze_response re ext mi = (Inr gs, ext1)))
   \<and> (analyze_response re ext mi = (Inr fs, ext') \<longrightarrow>
        analyze_response re ext' mi = (Inr [], ext')
      \<and> all_findings ext' = all_findings ext @ fs
      \<and> seen_values ext' = seen_values ext \<union> key_of ` set fs)"
    using returns quiet analyze_repeat [of re ext mi fs ext'] by blast
  from general page_d_raises page_d_recorded page_d_ledger page_d_raises_again
  show ?thesis by (intro conjI) (erule conjunct1, erule conjunct2, assumption+)
qed

lemma page_a_first:
  "fst (analyze_response literal_re (new_extender token_manager) page_a) = Inr [token_finding]"
  by code_simp

theorem analyze_twice_witness:
  "fst (analyze_response literal_re (new_extender token_manager) page_a) = Inr [token_finding]
   \<and> analyze_response literal_re
        (snd (analyze_response literal_re (new_extender token_manager) page_a)) page_a
      = (Inr [], snd (analyze_response literal_re (new_extender token_manager) page_a))"
proof -
  have "analyze_response literal_re (new_extender token_manager) page_a
        = (Inr [token_finding],
           snd (analyze_response literal_re (new_extender token_manager) page_a))"
    using page_a_first by (metis prod.collapse)
  with analyze_twice [of literal_re "new_extender token_manager" page_a "[token_finding]"
                        "snd (analyze_response literal_re (new_extender token_manager) page_a)"]
       page_a_first
  show ?thesis by simp
qed

section \<open>One finding per key across documents\<close>

lemma process_matches_absorbed:
  assumes "k \<in> seen_values ext" and "process_matches mi url es ext acc = (Inr fs, ext')"
  shows "filter (\<lambda>g. key_of g = k) fs = filter (\<lambda>g. key_of g = k) acc \<and> k \<in> seen_values ext'"
proof -
  from process_matches_effect [OF assms(2)] obtain new where new:
    "fs = acc @ new" "seen_values ext' = seen_values ext \<union> key_of ` set new"
    "\<forall>f \<in> set new. key_of f \<notin> seen_values ext" by blast
  from new(3) assms(1) have "filter (\<lambda>g. key_of g = k) new = []"
    by (auto simp: filter_empty_conv)
  with new(1,2) assms(1) show ?thesis by simp
qed

lemma process_matches_first_hit:
  "k \<notin> seen_values ext \<Longrightarrow>
   process_matches mi url es ext acc = (Inr fs, ext') \<Longrightarrow>
   List.find (\<lambda>e. accepted_key e = Some k) es = Some (c, pn, m) \<Longrightarrow>
   \<exists>v v'. match_value m = Inr v \<and> validate_value c v = Some v' \<and> finding_key c v' = k
     \<and> filter (\<lambda>g. key_of g = k) fs
         = filter (\<lambda>g. key_of g = k) acc
           @ [\<lparr>f_category = c, f_value = v', f_source = url, f_pattern = pn,
                f_message_info = mi\<rparr>]
     \<and> k \<in> seen_values ext'"
proof (induction es arbitrary: ext acc)
  case Nil
  then show ?case by simp
next
  case (Cons ev es)
  obtain c0 pn0 m0 where ev: "ev = (c0, pn0, m0)" by (cases ev) auto
  from Cons.prems(2) ev obtain v0 where v0: "match_value m0 = Inr v0"
    by (cases "match_value m0") auto
  show ?case
  proof (cases "accepted_key ev = Some k")
    case True
    with Cons.prems(3) have same: "c0 = c" "pn0 = pn" "m0 = m" using ev by simp_all
    from True ev v0 obtain v' where v': "validate_value c0 v0 = Some v'" "finding_key c0 v' = k"
      by (auto simp: accepted_key_def)
    define f where "f = \<lparr>f_category = c0, f_value = v', f_source = url, f_pattern = pn0,
                           f_message_info = mi\<rparr>"
    have kf: "key_of f = k" using v'(2) by (simp add: f_def key_of_def)
    define ext1 where "ext1 = snd (add_finding ext c0 v' url pn0 mi)"
    have af: "add_finding ext c0 v' url pn0 mi = (Some f, ext1)"
      using Cons.prems(1) v'(2) by (simp add: add_finding_def Let_def f_def ext1_def)
    have in1: "k \<in> seen_values ext1"
      using add_finding_cases [OF af] v'(2) by simp
    from Cons.prems(2) ev v0 v'(1) af
    have run: "process_matches mi url es ext1 (acc @ [f]) = (Inr fs, ext')" by simp
    from process_matches_absorbed [OF in1 run] kf
    have "filter (\<lambda>g. key_of g = k) fs = filter (\<lambda>g. key_of g = k) acc @ [f]"
      and "k \<in> seen_values ext'" by simp_all
    with v0 v' same show ?thesis by (auto simp: f_def)
  next
    case False
    with Cons.prems(3) have later: "List.find (\<lambda>e. accepted_key e = Some k) es = Some (c, pn, m)"
      by simp
    show ?thesis
    proof (cases "validate_value c0 v0")
      case None
      with Cons.prems(2) ev v0 have "process_matches mi url es ext acc = (Inr fs, ext')" by simp
      from Cons.IH [OF Cons.prems(1) this later] show ?thesis .
    next
      case (Some v0')
      from False ev v0 Some have other: "finding_key c0 v0' \<noteq> k"
        by (simp add: accepted_key_def)
      obtain r ext1 where af: "add_finding ext c0 v0' url pn0 mi = (r, ext1)"
        by (cases "add_finding ext c0 v0' url pn0 mi") auto
      note afc = add_finding_cases [OF af]
      from afc other Cons.prems(1) have out1: "k \<notin> seen_values ext1" by simp
      show ?thesis
      proof (cases r)
        case None
        with Cons.prems(2) ev v0 Some af
        have "process_matches mi url es ext1 acc = (Inr fs, ext')" by simp
        from Cons.IH [OF out1 this later] show ?thesis .
      next
        case (Some f0)
        with afc have "key_of f0 = finding_key c0 v0'"
          by (cases "finding_key c0 v0' \<in> seen_values ext") (auto simp: key_of_def)
        with other have skip: "filter (\<lambda>g. key_of g = k) (acc @ [f0]) = filter (\<lambda>g. key_of g = k) acc"
          by simp
        from Cons.prems(2) ev v0 \<open>validate_value c0 v0 = Some v0'\<close> af Some
        have "process_matches mi url es ext1 (acc @ [f0]) = (Inr fs, ext')" by simp
        from Cons.IH [OF out1 this later] skip show ?thesis by simp
      qed
    qed
  qed
qed

lemma analyze_absorbed:
  assumes "k \<in> seen_values ext" and "analyze_response re ext mi = (Inr fs, ext')"
  shows "filter (\<lambda>g. key_of g = k) fs = [] \<and> k \<in> seen_values ext'"
proof (cases "response_body mi")
  case None
  with assms show ?thesis by (auto simp: analyze_response_def)
next
  case (Some body)
  show ?thesis
  proof (cases "length body < 50")
    case True
    with assms Some show ?thesis by (auto simp: analyze_response_def)
  next
    case False
    with assms(2) Some
    have "process_matches mi (case request_url mi of Some u \<Rightarrow> u | None \<Rightarrow> ''Unknown'')
            (scan_events re (pattern_manager ext) body) ext [] = (Inr fs, ext')"
      by (simp add: analyze_response_def)
    from process_matches_absorbed [OF assms(1) this] show ?thesis by simp
  qed
qed

lemma find_append:
  "List.find P (xs @ ys) = (case List.find P xs of Some x \<Rightarrow> Some x | None \<Rightarrow> List.find P ys)"
  by (induction xs) auto

lemma find_in_prefix:
  assumes "x \<in> set xs" and "P x"
  shows "\<exists>y \<in> set xs. P y \<and> List.find P (xs @ ys) = Some y"
proof -
  from assms have "List.find P xs \<noteq> None" by (auto simp: find_None_iff)
  then obtain y where y: "List.find P xs = Some y" by auto
  then have "y \<in> set xs \<and> P y" by (auto simp: find_Some_iff)
  with y show ?thesis by (auto simp: find_append)
qed

lemma foldl_append_new:
  "\<exists>rest. foldl (\<lambda>cs k. if k \<notin> set cs then cs @ [k] else cs) init ks = init @ rest
          \<and> set rest \<subseteq> set ks \<and> set rest \<inter> set init = {} \<and> set ks \<subseteq> set init \<union> set rest"
proof (induction ks arbitrary: init)
  case Nil
  then show ?case by simp
next
  case (Cons k ks)
  show ?case
  proof (cases "k \<in> set init")
    case True
    with Cons [of init] show ?thesis by auto
  next
    case False
    from Cons [of "init @ [k]"] obtain rest where
      "foldl (\<lambda>cs k. if k \<notin> set cs then cs @ [k] else cs) (init @ [k]) ks = (init @ [k]) @ rest"
      "set rest \<subseteq> set ks" "set rest \<inter> set (init @ [k]) = {}"
      "set ks \<subseteq> set (init @ [k]) \<union> set rest" by blast
    with False show ?thesis by (intro exI [of _ "k # rest"]) auto
  qed
qed

lemma get_all_categories_shape:
  "\<exists>rest. get_all_categories pm = builtin_categories @ rest
          \<and> set rest = set (dict_keys (custom_categories_compiled pm)) - set builtin_categories"
proof -
  from foldl_append_new [of builtin_categories "dict_keys (custom_categories_compiled pm)"]
  obtain rest where
    "get_all_categories pm = builtin_categories @ rest"
    "set rest \<subseteq> set (dict_keys (custom_categories_compiled pm))"
    "set rest \<inter> set builtin_categories = {}"
    "set (dict_keys (custom_categories_compiled pm)) \<subseteq> set builtin_categories \<union> set rest"
    unfolding get_all_categories_def by blast
  then show ?thesis by (intro exI [of _ rest]) auto
qed

lemma category_events_category: "e \<in> set (category_events re pm body c) \<Longrightarrow> fst e = c"
  by (auto simp: category_events_def pattern_events_def)

lemma scan_events_category:
  "e \<in> set (scan_events re pm body) \<Longrightarrow> e \<in> set (category_events re pm body (fst e))"
  by (auto simp: scan_events_def dest: category_events_category)

lemma scan_events_front:
  "\<exists>rest. scan_events re pm body =
     (category_events re pm body ''endpoints'' @ category_events re pm body ''urls''
      @ category_events re pm body ''secrets'') @ rest"
proof -
  from get_all_categories_shape [of pm] obtain r where
    "get_all_categories pm = builtin_categories @ r" by blast
  then show ?thesis by (simp add: scan_events_def builtin_categories_def)
qed

lemma secrets_key_inject:
  "finding_key c v = finding_key ''secrets'' w \<Longrightarrow> c \<in> {''endpoints'', ''urls'', ''secrets''}
   \<Longrightarrow> c = ''secrets'' \<and> v = w"
  by (auto simp: finding_key_def)

lemma filter_narrow:
  assumes "\<And>x. P x \<Longrightarrow> Q x" and "filter Q xs = ys"
  shows "filter P xs = filter P ys"
proof -
  have "filter P xs = filter P (filter Q xs)"
    using assms(1) by (auto intro: filter_cong)
  with assms(2) show ?thesis by simp
qed

text \<open>
  C2. The ledger is keyed by category, a colon and the value, masked for secrets, and not
  by the source. Let a secret value that passes the secret validator be matched in a first
  document of at least fifty characters, its key not yet in the ledger, let a second
  document (any document, from any source) be analysed afterwards, and let both calls
  return. Then the first call reports exactly one secrets finding with the masked value,
  the second call reports none, the key built from the masked value is in the ledger, and
  the finding carries the source of the first document and the pattern name of the first
  match of the scan that is accepted under that key.
\<close>

theorem same_secret_reported_once:
  assumes fresh: "finding_key ''secrets'' (mask_secret v) \<notin> seen_values ext"
    and doc1: "response_body mi1 = Some body1" "50 \<le> length body1"
    and hit1: "(''secrets'', pn, m) \<in> set (scan_events re (pattern_manager ext) body1)"
      "match_value m = Inr v" "is_valid_secret v"
    and run1: "analyze_response re ext mi1 = (Inr fs1, ext1)"
    and run2: "analyze_response re ext1 mi2 = (Inr fs2, ext2)"
  shows "\<exists>pn0 m0.
           List.find (\<lambda>e. accepted_key e = Some (finding_key ''secrets'' (mask_secret v)))
                     (scan_events re (pattern_manager ext) body1) = Some (''secrets'', pn0, m0)
           \<and> filter (\<lambda>g. f_category g = ''secrets'' \<and> f_value g = mask_secret v) fs1
               = [\<lparr>f_category = ''secrets'', f_value = mask_secret v,
                    f_source = (case request_url mi1 of Some u \<Rightarrow> u | None \<Rightarrow> ''Unknown''),
                    f_pattern = pn0, f_message_info = mi1\<rparr>]
           \<and> filter (\<lambda>g. f_category g = ''secrets'' \<and> f_value g = mask_secret v) fs2 = []
           \<and> finding_key ''secrets'' (mask_secret v) \<in> seen_values ext2"
proof -
  define k where "k = finding_key ''secrets'' (mask_secret v)"
  define url where "url = (case request_url mi1 of Some u \<Rightarrow> u | None \<Rightarrow> ''Unknown'')"
  define es where "es = scan_events re (pattern_manager ext) body1"
  define front where "front = category_events re (pattern_manager ext) body1 ''endpoints''
      @ category_events re (pattern_manager ext) body1 ''urls''
      @ category_events re (pattern_manager ext) body1 ''secrets''"
  let ?P = "\<lambda>e. accepted_key e = Some k"
  let ?S = "\<lambda>g. f_category g = ''secrets'' \<and> f_value g = mask_secret v"
  have narrow: "\<And>g. ?S g \<Longrightarrow> key_of g = k"
    by (simp add: key_of_def k_def)
  obtain rest where split: "es = front @ rest"
    using scan_events_front [of re "pattern_manager ext" body1] by (auto simp: es_def front_def)
  have hit_key: "?P (''secrets'', pn, m)"
    using hit1(2,3) by (simp add: accepted_key_def validate_value_def k_def)
  have "(''secrets'', pn, m) \<in> set (category_events re (pattern_manager ext) body1 ''secrets'')"
    using scan_events_category [OF hit1(1)] by simp
  then have "(''secrets'', pn, m) \<in> set front" by (simp add: front_def)
  from find_in_prefix [OF this, of ?P rest] hit_key obtain y where
    y: "y \<in> set front" "?P y" "List.find ?P es = Some y" by (auto simp: split)
  obtain c pn0 m0 where yc: "y = (c, pn0, m0)" by (cases y) auto
  from y(1) have "fst y \<in> {''endpoints'', ''urls'', ''secrets''}"
    by (auto simp: front_def dest: category_events_category)
  with yc have c3: "c \<in> {''endpoints'', ''urls'', ''secrets''}" by simp
  from run1 doc1 have run: "process_matches mi1 url es ext [] = (Inr fs1, ext1)"
    by (simp add: analyze_response_def url_def es_def)
  have "k \<notin> seen_values ext" using fresh by (simp add: k_def)
  from process_matches_first_hit [OF this run y(3) [unfolded yc]] obtain w w' where
    w: "finding_key c w' = k"
      "filter (\<lambda>g. key_of g = k) fs1
         = [\<lparr>f_category = c, f_value = w', f_source = url, f_pattern = pn0,
              f_message_info = mi1\<rparr>]"
      "k \<in> seen_values ext1" by auto
  from secrets_key_inject [OF w(1) [unfolded k_def] c3] have cw: "c = ''secrets''" "w' = mask_secret v"
    by simp_all
  have first: "filter ?S fs1
      = [\<lparr>f_category = ''secrets'', f_value = mask_secret v, f_source = url, f_pattern = pn0,
           f_message_info = mi1\<rparr>]"
    using filter_narrow [of ?S "\<lambda>g. key_of g = k", OF narrow w(2)] cw by simp
  from analyze_absorbed [OF w(3) run2] have second: "filter (\<lambda>g. key_of g = k) fs2 = []"
    and seen: "k \<in> seen_values ext2" by simp_all
  have "filter ?S fs2 = []"
    using filter_narrow [of ?S "\<lambda>g. key_of g = k", OF narrow second] by simp
  with first seen y(3) yc cw show ?thesis
    by (auto simp: k_def url_def es_def)
qed

lemma page_b_second:
  "fst (analyze_response literal_re
          (snd (analyze_response literal_re (new_extender token_manager) page_a)) page_b) = Inr []"
  by code_simp

lemma page_a_events:
  "scan_events literal_re token_manager
     (''// build 4821 '' @ pad50 @ '' var k = '' @ token @ '';'')
   = [(''secrets'', ''Internal Token'', \<lparr>group0 = token, lastindex = None, group1 = None\<rparr>)]"
  by code_simp

theorem same_secret_reported_once_witness:
  "\<exists>pn0 m0.
     List.find (\<lambda>e. accepted_key e = Some (finding_key ''secrets'' (mask_secret token)))
        (scan_events literal_re (pattern_manager (new_extender token_manager))
           (''// build 4821 '' @ pad50 @ '' var k = '' @ token @ '';''))
       = Some (''secrets'', pn0, m0)
     \<and> filter (\<lambda>g. f_category g = ''secrets'' \<and> f_value g = mask_secret token) [token_finding]
         = [\<lparr>f_category = ''secrets'', f_value = mask_secret token,
              f_source = (case request_url page_a of Some u \<Rightarrow> u | None \<Rightarrow> ''Unknown''),
              f_pattern = pn0, f_message_info = page_a\<rparr>]
     \<and> filter (\<lambda>g. f_category g = ''secrets'' \<and> f_value g = mask_secret token) [] = []
     \<and> finding_key ''secrets'' (mask_secret token)
         \<in> seen_values
             (snd (analyze_response literal_re
                     (snd (analyze_response literal_re (new_extender token_manager) page_a))
                     page_b))"
proof -
  have fresh: "finding_key ''secrets'' (mask_secret token)
                 \<notin> seen_values (new_extender token_manager)"
    by (simp add: new_extender_def)
  have doc: "response_body page_a = Some (''// build 4821 '' @ pad50 @ '' var k = '' @ token @ '';'')"
    by (simp add: page_a_def)
  have long: "50 \<le> length (''// build 4821 '' @ pad50 @ '' var k = '' @ token @ '';'')"
    by (simp add: pad50_def)
  have hit: "(''secrets'', ''Internal Token'',
              \<lparr>group0 = token, lastindex = None, group1 = None\<rparr>)
             \<in> set (scan_events literal_re (pattern_manager (new_extender token_manager))
                      (''// build 4821 '' @ pad50 @ '' var k = '' @ token @ '';''))"
    using page_a_events by (simp add: new_extender_def)
  have val: "match_value \<lparr>group0 = token, lastindex = None, group1 = None\<rparr> = Inr token"
    by code_simp
  have ok: "is_valid_secret token"
    by code_simp
  have run1: "analyze_response literal_re (new_extender token_manager) page_a
        = (Inr [token_finding],
           snd (analyze_response literal_re (new_extender token_manager) page_a))"
    using page_a_first by (metis prod.collapse)
  have run2: "analyze_response literal_re
                (snd (analyze_response literal_re (new_extender token_manager) page_a)) page_b
        = (Inr [],
           snd (analyze_response literal_re
                  (snd (analyze_response literal_re (new_extender token_manager) page_a)) page_b))"
    using page_b_second by (metis prod.collapse)
  from same_secret_reported_once [OF fresh doc long hit val ok run1 run2]
  show ?thesis by simp
qed

lemma short_body_has_token:
  "finditer literal_re \<lparr>pat_source = token, pat_ignorecase = False\<rparr> (''var k = '' @ token @ '';'')
     = [\<lparr>group0 = token, lastindex = None, group1 = None\<rparr>]"
  by code_simp

lemma token_valid: "is_valid_secret token"
  by code_simp

lemma short_a_nothing:
  "analyze_response literal_re (new_extender token_manager) short_a
     = (Inr [], new_extender token_manager)"
  by code_simp

lemma short_b_nothing:
  "analyze_response literal_re (new_extender token_manager) short_b
     = (Inr [], new_extender token_manager)"
  by code_simp

lemma short_then_long:
  "fst (analyze_response literal_re
          (snd (analyze_response literal_re (new_extender token_manager) short_a)) page_a)
     = Inr [token_finding]"
  by code_simp

lemma both_tokens_events:
  "scan_events grouped_re grouped_then_token both_tokens
     = [(''secrets'', ''Grouped'', \<lparr>group0 = ''tok_1'', lastindex = Some 2, group1 = None\<rparr>),
        (''secrets'', ''Internal Token'', \<lparr>group0 = token, lastindex = None, group1 = None\<rparr>)]"
  by code_simp

lemma page_d_first_raises:
  "analyze_response grouped_re (new_extender grouped_then_token) page_d
     = (Inl AttributeError, new_extender grouped_then_token)"
  by code_simp

lemma page_e_first_raises:
  "analyze_response grouped_re (new_extender grouped_then_token) page_e
     = (Inl AttributeError, new_extender grouped_then_token)"
  by code_simp

lemma grouped_add_ok:
  "fst (add_custom_pattern grouped_re grouped_manager ''secrets'' token ''Internal Token'')
     = (True, None)"
  by code_simp


text \<open>
  Two pages of 37 characters from different sources contain the same valid secret, and
  analysing both reports nothing, because a body shorter than fifty characters is not
  scanned; when the long page follows the first short one, the finding carries the source
  of the long page. And with the pattern \<^verbatim>\<open>(zzz)?tok_(1)\<close> registered before the pattern of
  the long token, two pages of 95 characters from different sources contain the same
  secret, and both calls raise at the first match, before the secret is visited: no
  finding is reported and the ledger stays empty.
\<close>

theorem same_secret_unreported_counterexample:
  "finditer literal_re \<lparr>pat_source = token, pat_ignorecase = False\<rparr> (''var k = '' @ token @ '';'')
     = [\<lparr>group0 = token, lastindex = None, group1 = None\<rparr>]
   \<and> is_valid_secret token
   \<and> analyze_response literal_re (new_extender token_manager) short_a
       = (Inr [], new_extender token_manager)
   \<and> analyze_response literal_re (new_extender token_manager) short_b
       = (Inr [], new_extender token_manager)
   \<and> fst (analyze_response literal_re
            (snd (analyze_response literal_re (new_extender token_manager) short_a)) page_a)
       = Inr [token_finding]
   \<and> f_source token_finding = ''https://shop.local/static/app.js''
   \<and> scan_events grouped_re grouped_then_token both_tokens
       = [(''secrets'', ''Grouped'', \<lparr>group0 = ''tok_1'', lastindex = Some 2, group1 = None\<rparr>),
          (''secrets'', ''Internal Token'', \<lparr>group0 = token, lastindex = None, group1 = None\<rparr>)]
   \<and> analyze_response grouped_re (new_extender grouped_then_token) page_d
       = (Inl AttributeError, new_extender grouped_then_token)
   \<and> analyze_response grouped_re (new_extender grouped_then_token) page_e
       = (Inl AttributeError, new_extender grouped_then_token)"
proof -
  have "f_source token_finding = ''https://shop.local/static/app.js''"
    by (simp add: token_finding_def)
  with short_body_has_token token_valid short_a_nothing short_b_nothing short_then_long
       both_tokens_events page_d_first_raises page_e_first_raises
  show ?thesis by (intro conjI)
qed

section \<open>Validation follows the category, not the pattern\<close>







section \<open>The registry: dictionaries, compilation and queries\<close>

lemma map_of_dict_set_same: "map_of (dict_set d k v) k = Some v"
  by (induction d) auto


lemma dict_keys_dict_set:
  "dict_keys (dict_set d k v) = (if k \<in> set (dict_keys d) then dict_keys d else dict_keys d @ [k])"
  by (induction d) (auto simp: dict_keys_def rev_image_eqI)


lemma map_of_no_key: "k \<notin> set (dict_keys d) \<Longrightarrow> map_of d k = None"
  by (induction d) (auto simp: dict_keys_def)






lemma set_get_all_categories:
  "set (get_all_categories pm)
     = set builtin_categories \<union> set (dict_keys (custom_categories_compiled pm))"
proof -
  from get_all_categories_shape [of pm] obtain rest where
    shape: "get_all_categories pm = builtin_categories @ rest"
    and rest: "set rest = set (dict_keys (custom_categories_compiled pm)) - set builtin_categories"
    by blast
  have "set (get_all_categories pm) = set builtin_categories \<union> set rest"
    by (simp add: shape)
  with rest show ?thesis by blast
qed


lemma config_after_compile [simp]: "config (compile_custom_patterns re pm) = config pm"
  by (simp add: compile_custom_patterns_def)

lemma config_after_save [simp]: "config (save_config pm) = config pm"
  by (simp add: save_config_def)

lemma file_after_compile [simp]: "config_file (compile_custom_patterns re pm) = config_file pm"
  by (simp add: compile_custom_patterns_def)


lemma custom_list_ignores_compiled [simp]:
  "get_custom_patterns_list (compile_custom_patterns re pm) category
     = get_custom_patterns_list pm category"
  by (simp add: get_custom_patterns_list_def)

lemma custom_list_ignores_save [simp]:
  "get_custom_patterns_list (save_config pm) category = get_custom_patterns_list pm category"
  by (simp add: get_custom_patterns_list_def)












section \<open>Categories: collisions and order\<close>

lemma add_custom_category_rejects:
  "key \<in> set (get_all_categories pm) \<Longrightarrow>
   add_custom_category re pm key dn = ((False, Some ''Category already exists''), pm)"
  by (simp add: add_custom_category_def)

lemma builtin_in_all_categories:
  "key \<in> set builtin_categories \<Longrightarrow> key \<in> set (get_all_categories pm)"
  by (simp add: set_get_all_categories)

text \<open>
  C7. \<^verbatim>\<open>add_custom_category\<close> fails with \<^verbatim>\<open>"Category already exists"\<close>, leaving the manager
  as it was, for every key that \<^verbatim>\<open>get_all_categories\<close> lists: the five built-in keys,
  \<^verbatim>\<open>secrets\<close> among them, and the custom categories that have a compiled pattern. A
  custom category declared without a pattern is in the configuration but not in that
  list, so declaring the same key again succeeds and replaces its entry.
\<close>

theorem add_custom_category_collision:
  "(key \<in> set (get_all_categories pm) \<longrightarrow>
      add_custom_category re pm key dn = ((False, Some ''Category already exists''), pm))
   \<and> add_custom_category re pm ''secrets'' dn = ((False, Some ''Category already exists''), pm)
   \<and> fst (add_custom_category literal_re fresh_manager ''tokens'' ''Tokens'') = (True, None)
   \<and> custom_categories (config tokens_declared)
       = [(''tokens'', \<lparr>display_name = ''Tokens'', patterns = []\<rparr>)]
   \<and> ''tokens'' \<notin> set (get_all_categories tokens_declared)
   \<and> fst (add_custom_category literal_re tokens_declared ''tokens'' ''Other'') = (True, None)
   \<and> custom_categories
        (config (snd (add_custom_category literal_re tokens_declared ''tokens'' ''Other'')))
       = [(''tokens'', \<lparr>display_name = ''Other'', patterns = []\<rparr>)]"
proof -
  have a: "key \<in> set (get_all_categories pm) \<longrightarrow>
      add_custom_category re pm key dn = ((False, Some ''Category already exists''), pm)"
    by (simp add: add_custom_category_rejects)
  have "''secrets'' \<in> set (get_all_categories pm)"
    by (rule builtin_in_all_categories) (simp add: builtin_categories_def)
  then have b: "add_custom_category re pm ''secrets'' dn
                  = ((False, Some ''Category already exists''), pm)"
    by (rule add_custom_category_rejects)
  have c: "fst (add_custom_category literal_re fresh_manager ''tokens'' ''Tokens'') = (True, None)"
    by code_simp
  have d: "custom_categories (config tokens_declared)
       = [(''tokens'', \<lparr>display_name = ''Tokens'', patterns = []\<rparr>)]"
    by code_simp
  have e: "''tokens'' \<notin> set (get_all_categories tokens_declared)"
    by code_simp
  have f: "fst (add_custom_category literal_re tokens_declared ''tokens'' ''Other'') = (True, None)"
    by code_simp
  have g: "custom_categories
        (config (snd (add_custom_category literal_re tokens_declared ''tokens'' ''Other'')))
       = [(''tokens'', \<lparr>display_name = ''Other'', patterns = []\<rparr>)]"
    by code_simp
  from a b c d e f g show ?thesis by blast
qed

lemma tokens_active: "''tokens'' \<in> set (get_all_categories category_manager)"
  by code_simp

theorem add_custom_category_collision_witness:
  "''tokens'' \<in> set (get_all_categories category_manager)
   \<and> add_custom_category literal_re category_manager ''tokens'' ''Other''
       = ((False, Some ''Category already exists''), category_manager)"
  using add_custom_category_collision [of "''tokens''" category_manager literal_re "''Other''"]
        tokens_active
  by blast

text \<open>The keys of the compiled custom categories, for a configuration with distinct keys:
  the keys of the categories with a compiled pattern, in configuration order.\<close>

lemma compiled_keys:
  "distinct (dict_keys items) \<Longrightarrow> set (dict_keys items) \<inter> set (dict_keys d) = {} \<Longrightarrow>
   dict_keys (foldl (compile_category re) d items)
     = dict_keys d
       @ dict_keys (filter (\<lambda>(k, cd). compile_entries re True (patterns cd) \<noteq> []) items)"
proof (induction items arbitrary: d)
  case Nil
  then show ?case by (simp add: dict_keys_def)
next
  case (Cons item items)
  obtain k cd where item: "item = (k, cd)" by (cases item) auto
  from Cons.prems item have fresh: "k \<notin> set (dict_keys d)" "k \<notin> set (dict_keys items)"
    and rest: "distinct (dict_keys items)" "set (dict_keys items) \<inter> set (dict_keys d) = {}"
    by (auto simp: dict_keys_def)
  show ?case
  proof (cases "compile_entries re True (patterns cd) \<noteq> []")
    case True
    let ?d = "dict_set d k (display_name cd, compile_entries re True (patterns cd))"
    have keys: "dict_keys ?d = dict_keys d @ [k]"
      using fresh(1) by (simp add: dict_keys_dict_set)
    with fresh(2) rest(2) have "set (dict_keys items) \<inter> set (dict_keys ?d) = {}"
      by auto
    from Cons.IH [OF rest(1) this] keys True item show ?thesis
      by (simp add: compile_category_def dict_keys_def)
  next
    case False
    with Cons.IH [OF rest] item show ?thesis
      by (simp add: compile_category_def dict_keys_def)
  qed
qed

lemma append_new_distinct:
  "distinct ks \<Longrightarrow>
   foldl (\<lambda>cs k. if k \<notin> set cs then cs @ [k] else cs) init ks
     = init @ filter (\<lambda>k. k \<notin> set init) ks"
proof (induction ks arbitrary: init)
  case Nil
  then show ?case by simp
next
  case (Cons k ks)
  then have d: "distinct ks" and nk: "k \<notin> set ks" by simp_all
  show ?case
  proof (cases "k \<in> set init")
    case True
    with Cons.IH [OF d, of init] show ?thesis by simp
  next
    case False
    have "filter (\<lambda>x. x \<notin> set (init @ [k])) ks = filter (\<lambda>x. x \<notin> set init) ks"
      using nk by (auto intro: filter_cong)
    with Cons.IH [OF d, of "init @ [k]"] False show ?thesis by simp
  qed
qed

text \<open>
  C9. After the custom patterns have been compiled (which the constructor and every
  mutation do last), \<^verbatim>\<open>get_all_categories\<close> returns the five built-in keys in the order
  endpoints, urls, secrets, emails, files, followed by the keys of those custom
  categories that have at least one compiled pattern, in the order of the configuration's
  dictionary; a custom category without a compiled pattern is not listed. A key that is
  new to the dictionary is added at its end, and assigning to an existing key keeps its
  place, so the order of the dictionary is the order of creation.
\<close>

theorem get_all_categories_order:
  "(distinct (dict_keys (custom_categories (config pm))) \<longrightarrow>
      get_all_categories (compile_custom_patterns re pm)
        = [''endpoints'', ''urls'', ''secrets'', ''emails'', ''files'']
          @ filter (\<lambda>k. k \<notin> set builtin_categories)
              (dict_keys (filter (\<lambda>(k, cd). compile_entries re True (patterns cd) \<noteq> [])
                                   (custom_categories (config pm)))))
   \<and> (key \<notin> set (dict_keys d) \<longrightarrow> dict_keys (dict_set d key x) = dict_keys d @ [key])
   \<and> (key \<in> set (dict_keys d) \<longrightarrow> dict_keys (dict_set d key x) = dict_keys d)"
proof -
  let ?active = "filter (\<lambda>(k, cd). compile_entries re True (patterns cd) \<noteq> [])
                        (custom_categories (config pm))"
  have order: "get_all_categories (compile_custom_patterns re pm)
        = [''endpoints'', ''urls'', ''secrets'', ''emails'', ''files'']
          @ filter (\<lambda>k. k \<notin> set builtin_categories) (dict_keys ?active)"
    if dist: "distinct (dict_keys (custom_categories (config pm)))"
  proof -
    have keys: "dict_keys (custom_categories_compiled (compile_custom_patterns re pm))
                  = dict_keys ?active"
      using compiled_keys [OF dist, of "[]" re]
      by (simp add: compile_custom_patterns_def dict_keys_def)
    have "distinct (dict_keys ?active)"
      using dist unfolding dict_keys_def by (rule distinct_map_filter)
    from append_new_distinct [OF this, of builtin_categories] keys
    have "get_all_categories (compile_custom_patterns re pm)
            = builtin_categories @ filter (\<lambda>k. k \<notin> set builtin_categories) (dict_keys ?active)"
      by (simp add: get_all_categories_def)
    then show ?thesis by (simp add: builtin_categories_def)
  qed
  then show ?thesis by (simp add: dict_keys_dict_set)
qed

lemma three_categories_keys:
  "dict_keys (custom_categories (config three_categories)) = [''zeta'', ''middle'', ''alpha'']"
  by code_simp

lemma three_categories_active:
  "filter (\<lambda>k. k \<notin> set builtin_categories)
     (dict_keys (filter (\<lambda>(k, cd). compile_entries literal_re True (patterns cd) \<noteq> [])
                        (custom_categories (config three_categories))))
   = [''zeta'', ''alpha'']"
  by code_simp

theorem get_all_categories_order_witness:
  "dict_keys (custom_categories (config three_categories)) = [''zeta'', ''middle'', ''alpha'']
   \<and> get_all_categories (compile_custom_patterns literal_re three_categories)
       = [''endpoints'', ''urls'', ''secrets'', ''emails'', ''files'', ''zeta'', ''alpha'']
   \<and> dict_keys (dict_set [(''zeta'', 1 :: nat)] ''alpha'' 2) = [''zeta'', ''alpha'']"
proof -
  have "distinct (dict_keys (custom_categories (config three_categories)))"
    by (simp add: three_categories_keys)
  moreover have "''alpha'' \<notin> set (dict_keys [(''zeta'', 1 :: nat)])"
    by (simp add: dict_keys_def)
  ultimately show ?thesis
    using get_all_categories_order
            [of three_categories literal_re "''alpha''" "[(''zeta'', 1 :: nat)]" 2]
          three_categories_keys three_categories_active
    by (simp add: dict_keys_def)
qed

text \<open>
  Declaring a custom category on a manager built from the default configuration
  succeeds, and the sequence of categories is still the five built-in keys.
\<close>

theorem declared_category_not_listed_counterexample:
  "fst (add_custom_category literal_re fresh_manager ''tokens'' ''Tokens'') = (True, None)
   \<and> dict_keys (custom_categories (config tokens_declared)) = [''tokens'']
   \<and> get_all_categories tokens_declared
       = [''endpoints'', ''urls'', ''secrets'', ''emails'', ''files'']"
  by code_simp

section \<open>Removing a custom pattern\<close>

text \<open>Built-in patterns come first in every list of patterns, whatever the manager.\<close>

lemma builtin_patterns_fixed:
  "take (length compiled_endpoints) (get_patterns_for_category pm ''endpoints'')
     = compiled_endpoints
   \<and> take (length compiled_urls) (get_patterns_for_category pm ''urls'') = compiled_urls
   \<and> take (length compiled_secrets) (get_patterns_for_category pm ''secrets'') = compiled_secrets
   \<and> get_patterns_for_category pm ''emails'' = [(compiled_email, ''Email'')]
   \<and> get_patterns_for_category pm ''files'' = [(compiled_file, ''File'')]"
  by (simp add: get_patterns_for_category_def)

lemma del_at_in_range:
  "- int (length xs) \<le> i \<Longrightarrow> i < int (length xs) \<Longrightarrow>
   del_at xs i
     = Some (take (nat (if i < 0 then i + int (length xs) else i)) xs
             @ drop (Suc (nat (if i < 0 then i + int (length xs) else i))) xs)"
  by (simp add: del_at_def Let_def)

lemma del_at_out_of_range:
  "\<not> (- int (length xs) \<le> i \<and> i < int (length xs)) \<Longrightarrow> del_at xs i = None"
  by (auto simp: del_at_def Let_def)

lemma remove_from_config_known:
  assumes "category \<in> {''endpoints'', ''urls'', ''secrets''}
           \<or> category \<in> set (dict_keys (custom_categories (config pm)))"
  shows "case del_at (get_custom_patterns_list pm category) index of
           None \<Rightarrow> remove_from_config (config pm) category index = None
         | Some l \<Rightarrow> \<exists>cfg. remove_from_config (config pm) category index = Some cfg
                       \<and> get_custom_patterns_list (pm\<lparr>config := cfg\<rparr>) category = l"
proof (cases "category \<in> {''endpoints'', ''urls'', ''secrets''}")
  case True
  then consider "category = ''endpoints''" | "category = ''urls''" | "category = ''secrets''"
    by blast
  then show ?thesis
  proof cases
    case 1
    then show ?thesis
      by (cases "del_at (custom_endpoints (config pm)) index")
         (simp_all add: remove_from_config_def get_custom_patterns_list_def)
  next
    case 2
    then show ?thesis
      by (cases "del_at (custom_urls (config pm)) index")
         (simp_all add: remove_from_config_def get_custom_patterns_list_def)
  next
    case 3
    then show ?thesis
      by (cases "del_at (custom_secrets (config pm)) index")
         (simp_all add: remove_from_config_def get_custom_patterns_list_def)
  qed
next
  case False
  with assms have "map_of (custom_categories (config pm)) category \<noteq> None"
    by (simp add: dict_keys_def map_of_eq_None_iff)
  then obtain cd where cd: "map_of (custom_categories (config pm)) category = Some cd"
    by auto
  with False show ?thesis
    by (cases "del_at (patterns cd) index")
       (simp_all add: remove_from_config_def get_custom_patterns_list_def map_of_dict_set_same)
qed

lemma remove_from_config_unknown:
  assumes "category \<notin> {''endpoints'', ''urls'', ''secrets''}"
    and "category \<notin> set (dict_keys (custom_categories (config pm)))"
  shows "remove_from_config (config pm) category index = Some (config pm)"
proof -
  from assms(2) have "map_of (custom_categories (config pm)) category = None"
    by (rule map_of_no_key)
  with assms(1) show ?thesis by (simp add: remove_from_config_def)
qed

text \<open>
  C8. For \<^verbatim>\<open>endpoints\<close>, \<^verbatim>\<open>urls\<close>, \<^verbatim>\<open>secrets\<close> and every category that has an entry in the
  configuration, \<^verbatim>\<open>remove_custom_pattern\<close> succeeds exactly when the index \<open>i\<close> satisfies
  \<open>-n \<le> i < n\<close> for the length \<open>n\<close> of the category's custom list, a negative index counting
  from the end; it then removes the entry at that position and keeps the others in
  order, and otherwise it fails with \<^verbatim>\<open>"Pattern not found: ..."\<close> and changes nothing. For
  any other category it reports success and leaves the configuration as it is. Built-in
  patterns stay at the head of the pattern lists after every call.
\<close>

theorem remove_custom_pattern_spec:
  "(category \<in> {''endpoints'', ''urls'', ''secrets''}
      \<or> category \<in> set (dict_keys (custom_categories (config pm))) \<longrightarrow>
      (- int (length (get_custom_patterns_list pm category)) \<le> index
         \<and> index < int (length (get_custom_patterns_list pm category)) \<longrightarrow>
           fst (remove_custom_pattern re pm category index) = (True, None)
         \<and> get_custom_patterns_list (snd (remove_custom_pattern re pm category index)) category
             = take (nat (if index < 0
                          then index + int (length (get_custom_patterns_list pm category))
                          else index))
                 (get_custom_patterns_list pm category)
               @ drop (Suc (nat (if index < 0
                                 then index + int (length (get_custom_patterns_list pm category))
                                 else index)))
                   (get_custom_patterns_list pm category))
      \<and> (\<not> (- int (length (get_custom_patterns_list pm category)) \<le> index
              \<and> index < int (length (get_custom_patterns_list pm category))) \<longrightarrow>
           remove_custom_pattern re pm category index
             = ((False, Some (''Pattern not found: '' @ index_error_text re index)), pm)))
   \<and> (category \<notin> {''endpoints'', ''urls'', ''secrets''}
        \<and> category \<notin> set (dict_keys (custom_categories (config pm))) \<longrightarrow>
          fst (remove_custom_pattern re pm category index) = (True, None)
        \<and> config (snd (remove_custom_pattern re pm category index)) = config pm)
   \<and> take (length compiled_endpoints)
        (get_patterns_for_category (snd (remove_custom_pattern re pm category index)) ''endpoints'')
       = compiled_endpoints
   \<and> take (length compiled_urls)
        (get_patterns_for_category (snd (remove_custom_pattern re pm category index)) ''urls'')
       = compiled_urls
   \<and> take (length compiled_secrets)
        (get_patterns_for_category (snd (remove_custom_pattern re pm category index)) ''secrets'')
       = compiled_secrets
   \<and> get_patterns_for_category (snd (remove_custom_pattern re pm category index)) ''emails''
       = [(compiled_email, ''Email'')]
   \<and> get_patterns_for_category (snd (remove_custom_pattern re pm category index)) ''files''
       = [(compiled_file, ''File'')]"
proof -
  let ?L = "get_custom_patterns_list pm category"
  let ?R = "remove_custom_pattern re pm category index"
  let ?known = "category \<in> {''endpoints'', ''urls'', ''secrets''}
      \<or> category \<in> set (dict_keys (custom_categories (config pm)))"
  let ?in = "- int (length ?L) \<le> index \<and> index < int (length ?L)"
  let ?j = "nat (if index < 0 then index + int (length ?L) else index)"
  have hit: "fst ?R = (True, None)
             \<and> get_custom_patterns_list (snd ?R) category = take ?j ?L @ drop (Suc ?j) ?L"
    if k: ?known and i: ?in
  proof -
    from i have "del_at ?L index = Some (take ?j ?L @ drop (Suc ?j) ?L)"
      by (simp add: del_at_in_range)
    with remove_from_config_known [OF k, of index] obtain cfg where
      cfg: "remove_from_config (config pm) category index = Some cfg"
        "get_custom_patterns_list (pm\<lparr>config := cfg\<rparr>) category = take ?j ?L @ drop (Suc ?j) ?L"
      by auto
    then show ?thesis by (simp add: remove_custom_pattern_def)
  qed
  have miss: "?R = ((False, Some (''Pattern not found: '' @ index_error_text re index)), pm)"
    if k: ?known and i: "\<not> ?in"
  proof -
    from i have "del_at ?L index = None"
      by (rule del_at_out_of_range)
    with remove_from_config_known [OF k, of index]
    have "remove_from_config (config pm) category index = None" by simp
    then show ?thesis by (simp add: remove_custom_pattern_def)
  qed
  have noop: "fst ?R = (True, None) \<and> config (snd ?R) = config pm"
    if "category \<notin> {''endpoints'', ''urls'', ''secrets''}"
      "category \<notin> set (dict_keys (custom_categories (config pm)))"
    using remove_from_config_unknown [OF that, of index]
    by (simp add: remove_custom_pattern_def)
  have a: "?known \<longrightarrow>
      (?in \<longrightarrow> fst ?R = (True, None)
               \<and> get_custom_patterns_list (snd ?R) category = take ?j ?L @ drop (Suc ?j) ?L)
      \<and> (\<not> ?in \<longrightarrow> ?R = ((False, Some (''Pattern not found: '' @ index_error_text re index)), pm))"
    using hit miss by blast
  have b: "category \<notin> {''endpoints'', ''urls'', ''secrets''}
        \<and> category \<notin> set (dict_keys (custom_categories (config pm))) \<longrightarrow>
          fst ?R = (True, None) \<and> config (snd ?R) = config pm"
    using noop by blast
  note c = builtin_patterns_fixed [of "snd ?R"]
  show ?thesis
    by (rule conjI [OF a conjI [OF b c]])
qed

lemma index_error_at_one:
  "index_error_text literal_re 1 = ''list assignment index out of range''"
  by code_simp

lemma token_manager_list:
  "get_custom_patterns_list token_manager ''secrets''
     = [\<lparr>regex = token, name = ''Internal Token''\<rparr>]"
  by code_simp

theorem remove_custom_pattern_spec_witness:
  "fst (remove_custom_pattern literal_re token_manager ''secrets'' 0) = (True, None)
   \<and> get_custom_patterns_list (snd (remove_custom_pattern literal_re token_manager ''secrets'' 0))
        ''secrets'' = []
   \<and> remove_custom_pattern literal_re token_manager ''secrets'' 1
       = ((False, Some ''Pattern not found: list assignment index out of range''), token_manager)
   \<and> fst (remove_custom_pattern literal_re token_manager ''files'' 0) = (True, None)
   \<and> config (snd (remove_custom_pattern literal_re token_manager ''files'' 0))
       = config token_manager"
proof -
  have nokey: "''files'' \<notin> set (dict_keys (custom_categories (config token_manager)))"
    by code_simp
  from remove_custom_pattern_spec [of "''secrets''" token_manager 0 literal_re]
       remove_custom_pattern_spec [of "''secrets''" token_manager 1 literal_re]
       remove_custom_pattern_spec [of "''files''" token_manager 0 literal_re]
       nokey
  show ?thesis
    by (simp add: token_manager_list index_error_at_one)
qed

text \<open>
  With one custom secrets pattern, the index \<open>-1\<close> is no position of the list, yet the
  call succeeds and removes the pattern; and for a category that has no custom list at
  all, every index is out of range, yet the call reports success.
\<close>

theorem remove_custom_pattern_counterexample:
  "get_custom_patterns_list token_manager ''secrets''
     = [\<lparr>regex = token, name = ''Internal Token''\<rparr>]
   \<and> fst (remove_custom_pattern literal_re token_manager ''secrets'' (- 1)) = (True, None)
   \<and> get_custom_patterns_list
        (snd (remove_custom_pattern literal_re token_manager ''secrets'' (- 1))) ''secrets'' = []
   \<and> get_custom_patterns_list token_manager ''nowhere'' = []
   \<and> fst (remove_custom_pattern literal_re token_manager ''nowhere'' 7) = (True, None)"
  by code_simp

end
